(* ===== verification/NFS_Prelude.thy ===== *)
theory NFS_Prelude
  imports Main "HOL-Library.Word" "HOL-Library.Monad_Syntax"
begin

text \<open>
  Shared vocabulary of the development: C strings and fixed-size buffers, the faults a C
  statement can run into, the sequencing of faulting computations, decimal printing and
  scanning (the conversions of \<^verbatim>\<open>sprintf\<close> and \<^verbatim>\<open>sscanf\<close> that the program uses), and the
  constants of \<^verbatim>\<open>definitions.h\<close>.
\<close>

named_theorems fault_simps "computation rules of the fault monad"
named_theorems cstr_simps "facts about C strings"

section \<open>Constants of definitions.h\<close>

abbreviation PATH_MAX :: nat where "PATH_MAX \<equiv> 4096"

definition MAX_ACC_PATHS :: nat where "MAX_ACC_PATHS = 15"

definition NAMING_SERVER_PORT :: int where "NAMING_SERVER_PORT = 8989"

definition MAX_SS :: nat where "MAX_SS = 10"

definition MAX_BUFFER_SIZE :: nat where "MAX_BUFFER_SIZE = 6000"

definition MAX_ARGS :: nat where "MAX_ARGS = 15"

definition CHUNK_SIZE :: nat where "CHUNK_SIZE = 512"

definition MAX_ASSOCIATED_FILES :: nat where "MAX_ASSOCIATED_FILES = 100"

text \<open>The terminal colour \<^verbatim>\<open>white\<close>, a string literal that the code pastes onto messages.\<close>

definition white :: string where
  "white = CHR 0x1B # ''[0;37m''"

section \<open>Faults\<close>

text \<open>
  What a C statement can do instead of producing a value: dereference a null pointer, read
  or write outside an array, write past the end of a buffer, read an object that was never
  initialised, or run for ever.
\<close>

datatype fault =
    NullDeref
  | OutOfBounds
  | BufferOverflow
  | Uninitialised
  | Diverges

definition fbind :: "fault + 'a \<Rightarrow> ('a \<Rightarrow> fault + 'b) \<Rightarrow> fault + 'b" where
  "fbind r f = (case r of Inl e \<Rightarrow> Inl e | Inr x \<Rightarrow> f x)"

definition returns :: "'a option \<Rightarrow> fault + 'a" where
  "returns r = (case r of None \<Rightarrow> Inl Diverges | Some x \<Rightarrow> Inr x)"

lemma fbind_simps [simp, fault_simps]:
  "fbind (Inl e) f = Inl e"
  "fbind (Inr x) f = f x"
  by (simp_all add: fbind_def)

lemma returns_simps [simp, fault_simps]:
  "returns None = Inl Diverges"
  "returns (Some x) = Inr x"
  by (simp_all add: returns_def)

lemma fbind_eq_Inr [fault_simps]:
  "fbind r f = Inr y \<longleftrightarrow> (\<exists>x. r = Inr x \<and> f x = Inr y)"
  by (cases r) auto

lemma returns_eq_Inr [simp, fault_simps]: "returns r = Inr x \<longleftrightarrow> r = Some x"
  by (cases r) auto

section \<open>Updated lists\<close>

lemma nth_list_update_if:
  "xs[j := x] ! i = (if i = j \<and> j < length xs then x else xs ! i)"
  by (cases "j < length xs") (simp_all add: list_update_beyond)

lemma find_unique:
  "x \<in> set xs \<Longrightarrow> P x \<Longrightarrow> (\<And>y. y \<in> set xs \<Longrightarrow> P y \<Longrightarrow> y = x) \<Longrightarrow> find P xs = Some x"
proof (induction xs)
  case (Cons a xs)
  show ?case
  proof (cases "P a")
    case True
    then have "a = x" using Cons.prems(3) by (meson list.set_intros(1))
    with True show ?thesis by simp
  next
    case False
    have "find P xs = Some x"
      by (rule Cons.IH) (use Cons.prems False in \<open>blast dest: set_ConsD intro: list.set_intros(2)\<close>)+
    with False show ?thesis by simp
  qed
qed simp

section \<open>C strings\<close>

text \<open>
  A buffer is a list of characters; as a C string it is read up to its first NUL. A model
  value of type \<^typ>\<open>string\<close> that stands for a C string holds no NUL.
\<close>

definition NUL :: char where "NUL = CHR 0x00"

definition cstr :: "string \<Rightarrow> string" where
  "cstr buf = takeWhile (\<lambda>c. c \<noteq> NUL) buf"

text \<open>\<^verbatim>\<open>tolower\<close> in the C locale, and the test \<^verbatim>\<open>strcasecmp(a, b) == 0\<close>.\<close>

definition to_lower :: "char \<Rightarrow> char" where
  "to_lower c = (if 65 \<le> (of_char c :: nat) \<and> (of_char c :: nat) \<le> 90
                 then char_of ((of_char c :: nat) + 32) else c)"

definition strcaseeq :: "string \<Rightarrow> string \<Rightarrow> bool" where
  "strcaseeq a b \<longleftrightarrow> map to_lower a = map to_lower b"

text \<open>The value of a plain \<^verbatim>\<open>char\<close> after promotion to \<^verbatim>\<open>int\<close> (\<^verbatim>\<open>char\<close> is signed).\<close>

definition schar :: "char \<Rightarrow> int" where
  "schar c = (if (of_char c :: int) < 128 then of_char c else of_char c - 256)"

lemma strcaseeq_refl [simp]: "strcaseeq a a"
  by (simp add: strcaseeq_def)

lemma strcaseeq_length: "strcaseeq a b \<Longrightarrow> length a = length b"
  unfolding strcaseeq_def by (metis length_map)

lemma cstr_id [cstr_simps]: "NUL \<notin> set s \<Longrightarrow> cstr s = s"
  by (auto simp: cstr_def takeWhile_eq_all_conv)

lemma cstr_pad [cstr_simps]: "NUL \<notin> set s \<Longrightarrow> cstr (s @ replicate n NUL) = s"
  by (cases n) (auto simp: cstr_def takeWhile_append takeWhile_eq_all_conv)

lemma schar_inj: "schar a = schar b \<longleftrightarrow> a = b"
proof
  assume eq: "schar a = schar b"
  have "(of_char a :: int) < 256" "(of_char b :: int) < 256"
    "0 \<le> (of_char a :: int)" "0 \<le> (of_char b :: int)"
    by (simp_all add: of_char_def)
  with eq have "(of_char a :: int) = of_char b"
    by (auto simp: schar_def split: if_splits)
  then show "a = b" by simp
qed simp

section \<open>Decimal conversions\<close>

text \<open>The conversions \<^verbatim>\<open>%ld\<close> and \<^verbatim>\<open>%d\<close> of \<^verbatim>\<open>sprintf\<close>.\<close>

definition digit :: "nat \<Rightarrow> char" where
  "digit d = char_of (48 + d)"

fun show_nat :: "nat \<Rightarrow> string" where
  "show_nat n = (if n < 10 then [digit n] else show_nat (n div 10) @ [digit (n mod 10)])"

declare show_nat.simps [simp del]

definition show_int :: "int \<Rightarrow> string" where
  "show_int i = (if i < 0 then CHR ''-'' # show_nat (nat (- i)) else show_nat (nat i))"

text \<open>\<^verbatim>\<open>%o\<close>: octal.\<close>

fun show_oct :: "nat \<Rightarrow> string" where
  "show_oct n = (if n < 8 then [digit n] else show_oct (n div 8) @ [digit (n mod 8)])"

declare show_oct.simps [simp del]

definition is_digit :: "char \<Rightarrow> bool" where
  "is_digit c \<longleftrightarrow> 48 \<le> (of_char c :: nat) \<and> (of_char c :: nat) \<le> 57"

text \<open>\<^verbatim>\<open>isspace\<close> in the C locale: blank, tab, newline, vertical tab, form feed, return.\<close>

definition is_space :: "char \<Rightarrow> bool" where
  "is_space c \<longleftrightarrow> (of_char c :: nat) = 32 \<or> (9 \<le> (of_char c :: nat) \<and> (of_char c :: nat) \<le> 13)"

definition skip_space :: "string \<Rightarrow> string" where
  "skip_space s = dropWhile is_space s"

text \<open>
  The input left over after a \<^verbatim>\<open>%d\<close> (an optional sign and at least one digit), and the word
  stored by a \<^verbatim>\<open>%s\<close>; \<^const>\<open>None\<close> is a matching failure. The numbers themselves are discarded by
  the code.
\<close>

definition scan_d :: "string \<Rightarrow> string option" where
  "scan_d s =
     (let s = skip_space s;
          s = (case s of c # r \<Rightarrow> if c = CHR ''-'' \<or> c = CHR ''+'' then r else s | [] \<Rightarrow> s)
      in if takeWhile is_digit s = [] then None else Some (dropWhile is_digit s))"

definition scan_s :: "string \<Rightarrow> string option" where
  "scan_s s =
     (let w = takeWhile (\<lambda>c. \<not> is_space c) (skip_space s) in if w = [] then None else Some w)"

text \<open>\<^verbatim>\<open>sscanf(key, "%d %d %s", &_, &_, temp)\<close>: the word in \<^verbatim>\<open>temp\<close>.\<close>

definition scan_dds :: "string \<Rightarrow> string option" where
  "scan_dds s = do { s \<leftarrow> scan_d s; s \<leftarrow> scan_d s; scan_s s }"

lemma of_char_digit: "d < 10 \<Longrightarrow> (of_char (digit d) :: nat) = 48 + d"
  by (simp add: digit_def)

lemma is_digit_digit [simp]: "d < 10 \<Longrightarrow> is_digit (digit d)"
  by (simp add: is_digit_def of_char_digit)

lemma digit_inj: "d < 10 \<Longrightarrow> e < 10 \<Longrightarrow> digit d = digit e \<longleftrightarrow> d = e"
  by (metis add_left_cancel of_char_digit)

lemma digit_not_space [simp]: "is_digit c \<Longrightarrow> \<not> is_space c"
  by (auto simp: is_digit_def is_space_def)

lemma is_digit_literals [simp]: "\<not> is_digit CHR '' ''" "\<not> is_digit CHR ''-''" "is_space CHR '' ''"
    "\<not> is_space CHR ''-''"
  by (simp_all add: is_digit_def is_space_def)

lemma show_nat_digits: "\<forall>c\<in>set (show_nat n). is_digit c"
proof (induction n rule: show_nat.induct)
  case (1 n)
  then show ?case by (subst show_nat.simps) auto
qed

lemma show_nat_nonempty [simp]: "show_nat n \<noteq> []"
  by (subst show_nat.simps) simp

lemma show_nat_inj: "show_nat m = show_nat n \<longleftrightarrow> m = n"
proof
  show "show_nat m = show_nat n \<Longrightarrow> m = n"
  proof (induction m arbitrary: n rule: show_nat.induct)
    case (1 m)
    note eq = "1.prems" [unfolded show_nat.simps [of m] show_nat.simps [of n]]
    show ?case
    proof (cases "m < 10"; cases "n < 10")
      assume "\<not> m < 10" "\<not> n < 10"
      with eq have "m div 10 = n div 10" "m mod 10 = n mod 10"
        using "1.IH" by (auto simp: digit_inj)
      then show ?thesis by (metis div_mult_mod_eq)
    qed (use eq show_nat_nonempty [symmetric] in \<open>auto simp: digit_inj\<close>)
  qed
qed simp

lemma show_int_chars: "c \<in> set (show_int i) \<Longrightarrow> is_digit c \<or> c = CHR ''-''"
  using show_nat_digits by (auto simp: show_int_def split: if_splits)

lemma show_int_no_space: "CHR '' '' \<notin> set (show_int i)"
  using show_int_chars by fastforce

lemma show_int_inj: "show_int i = show_int j \<longleftrightarrow> i = j"
proof
  assume eq: "show_int i = show_int j"
  have "hd (show_nat n) \<noteq> CHR ''-''" for n
    using show_nat_digits [of n] by (metis hd_in_set is_digit_literals(2) show_nat_nonempty)
  then show "i = j"
    using eq by (auto simp: show_int_def show_nat_inj split: if_splits)
      (metis list.sel(1))+
qed simp

text \<open>A field without the separator is determined by the separated string.\<close>

lemma split_at_separator:
  "c \<notin> set a \<Longrightarrow> c \<notin> set a' \<Longrightarrow> a @ c # b = a' @ c # b' \<longleftrightarrow> a = a' \<and> b = b'"
proof
  assume c: "c \<notin> set a" "c \<notin> set a'" and eq: "a @ c # b = a' @ c # b'"
  have first: "takeWhile (\<lambda>x. x \<noteq> c) (xs @ c # ys) = xs" if "c \<notin> set xs" for xs ys
    using that by (subst takeWhile_append2) auto
  have "a = a'" using first [OF c(1), of b] first [OF c(2), of b'] eq by simp
  with eq show "a = a' \<and> b = b'" by simp
qed simp

text \<open>A printed number is scanned as a whole, whatever follows that is not a digit.\<close>

lemma show_nat_Cons:
  obtains c r where "show_nat n = c # r" "is_digit c" "c \<noteq> CHR ''-''" "c \<noteq> CHR ''+''" "\<not> is_space c"
proof -
  obtain c r where cr: "show_nat n = c # r" by (cases "show_nat n") auto
  then have "is_digit c" using show_nat_digits [of n] by simp
  with cr show thesis by (intro that [of c r]) (auto simp: is_digit_def is_space_def)
qed

lemma scan_d_show_int:
  assumes "rest = [] \<or> \<not> is_digit (hd rest)"
  shows "scan_d (show_int i @ rest) = Some rest"
proof -
  have body: "takeWhile is_digit (show_nat n @ rest) = show_nat n"
    "dropWhile is_digit (show_nat n @ rest) = rest" for n
    using show_nat_digits [of n] assms by (cases rest; simp add: takeWhile_append dropWhile_append)+
  show ?thesis
  proof (cases "i < 0")
    case True
    with body show ?thesis by (simp add: scan_d_def show_int_def skip_space_def Let_def)
  next
    case False
    obtain c r where c: "show_nat (nat i) = c # r" "is_digit c" "c \<noteq> CHR ''-''" "c \<noteq> CHR ''+''"
      "\<not> is_space c" by (rule show_nat_Cons)
    with False body [of "nat i"] show ?thesis
      by (simp add: scan_d_def show_int_def skip_space_def Let_def)
  qed
qed

text \<open>Leading blanks in front of a number are skipped.\<close>

lemma scan_d_blank [simp]: "scan_d (CHR '' '' # s) = scan_d s"
  by (simp add: scan_d_def skip_space_def)

lemma scan_dds_printed:
  assumes "w \<noteq> []" and "\<forall>c\<in>set w. \<not> is_space c"
  shows "scan_dds (show_int i @ '' '' @ show_int j @ '' '' @ w) = Some w"
proof -
  have "scan_s (CHR '' '' # w) = Some w"
    using assms by (cases w) (auto simp: scan_s_def skip_space_def Let_def takeWhile_eq_all_conv)
  then show ?thesis
    using scan_d_show_int [of "'' '' @ show_int j @ '' '' @ w" i] scan_d_show_int [of "'' '' @ w" j]
    by (simp add: scan_dds_def)
qed

section \<open>Path names\<close>

text \<open>
  \<^verbatim>\<open>basename\<close> of POSIX, which also cuts trailing slashes off its argument: the result and the
  argument afterwards.
\<close>

definition basename :: "string \<Rightarrow> string \<times> string" where
  "basename path =
     (let trimmed = rev (dropWhile (\<lambda>c. c = CHR ''/'') (rev path))
      in if path = [] then (''.'', path)
         else if trimmed = [] then (''/'', path)
         else (rev (takeWhile (\<lambda>c. c \<noteq> CHR ''/'') (rev trimmed)), trimmed))"

lemma basename_of:
  assumes "name \<noteq> []" and "CHR ''/'' \<notin> set name"
  shows "basename (dir @ ''/'' @ name) = (name, dir @ ''/'' @ name)"
proof -
  have "dropWhile (\<lambda>c. c = CHR ''/'') (rev name @ CHR ''/'' # rev dir) = rev name @ CHR ''/'' # rev dir"
    using assms by (cases "rev name") (auto simp: rev_eq_Cons_iff)
  moreover have "takeWhile (\<lambda>c. c \<noteq> CHR ''/'') (rev name @ CHR ''/'' # rev dir) = rev name"
    using assms(2) by (subst takeWhile_append2) auto
  ultimately show ?thesis by (simp add: basename_def)
qed

end
