(* ===== verification/Io.thy ===== *)
theory Io
  imports NFS_Prelude
begin

text \<open>
  The operating system as the three programs see it: sockets, the terminal and the file system.
  A run is a function of what the system calls are going to return. Every socket has the list of
  byte strings that the coming \<^verbatim>\<open>recv\<close> calls on it deliver (nothing is assumed about where TCP
  cuts the stream), and when a list is used up the caller waits. What a program does is recorded
  as a list of events. A program ends normally, calls \<^verbatim>\<open>exit\<close>, waits for ever, or commits a fault.
\<close>

section \<open>The world\<close>

datatype event =
    Sent nat string
  | Opened nat string int
  | Closed nat
  | Printed string

datatype fnode =
    File string
  | Dir

type_synonym files = "string \<Rightarrow> fnode option"

text \<open>
  \<open>w_in\<close>: per socket, what \<^verbatim>\<open>recv\<close> will return; \<open>None\<close> is an error, an empty string the end of
  the stream. \<open>w_send_ok\<close>: whether the coming \<^verbatim>\<open>send\<close> calls succeed; past its end they all do.
  \<open>w_connect\<close>: per coming \<^verbatim>\<open>connect\<close>, failure or what the new socket will deliver. \<open>w_stdin\<close>: the
  lines typed. \<open>w_locked\<close>: the names that cannot be opened for writing.
\<close>

record world =
  w_in :: "nat \<Rightarrow> string option list"
  w_send_ok :: "bool list"
  w_connect :: "string option list option list"
  w_next :: nat
  w_stdin :: "string list"
  w_files :: files
  w_locked :: "string \<Rightarrow> bool"
  w_events :: "event list"

datatype ('s, 'a) outcome =
    Done 'a 's
  | Exited 's
  | Blocked 's
  | Faulted fault 's

type_synonym ('s, 'a) io = "'s \<Rightarrow> ('s, 'a) outcome"

definition io_return :: "'a \<Rightarrow> ('s, 'a) io" where
  "io_return x w = Done x w"

definition io_bind :: "('s, 'a) io \<Rightarrow> ('a \<Rightarrow> ('s, 'b) io) \<Rightarrow> ('s, 'b) io" where
  "io_bind m f w =
     (case m w of
        Done x w' \<Rightarrow> f x w'
      | Exited w' \<Rightarrow> Exited w'
      | Blocked w' \<Rightarrow> Blocked w'
      | Faulted e w' \<Rightarrow> Faulted e w')"

definition io_exit :: "('s, 'a) io" where
  "io_exit w = Exited w"

definition io_wait :: "('s, 'a) io" where
  "io_wait w = Blocked w"

definition io_fault :: "fault \<Rightarrow> ('s, 'a) io" where
  "io_fault e w = Faulted e w"

definition io_lift :: "fault + 'a \<Rightarrow> ('s, 'a) io" where
  "io_lift r = (case r of Inl e \<Rightarrow> io_fault e | Inr x \<Rightarrow> io_return x)"

definition io_get :: "('s \<Rightarrow> 'a) \<Rightarrow> ('s, 'a) io" where
  "io_get f w = Done (f w) w"

definition io_update :: "('s \<Rightarrow> 's) \<Rightarrow> ('s, unit) io" where
  "io_update f w = Done () (f w)"

named_theorems io_simps "evaluation of programs"

lemma io_return_eq [io_simps]: "io_return x w = Done x w"
  by (simp add: io_return_def)

lemma io_exit_eq [io_simps]: "io_exit w = Exited w"
  by (simp add: io_exit_def)

lemma io_wait_eq [io_simps]: "io_wait w = Blocked w"
  by (simp add: io_wait_def)

lemma io_fault_eq [io_simps]: "io_fault e w = Faulted e w"
  by (simp add: io_fault_def)

lemma io_lift_eqs [io_simps]: "io_lift (Inl e) w = Faulted e w" "io_lift (Inr x) w = Done x w"
  by (simp_all add: io_lift_def io_simps)

lemma io_get_eq [io_simps]: "io_get f w = Done (f w) w"
  by (simp add: io_get_def)

lemma io_update_eq [io_simps]: "io_update f w = Done () (f w)"
  by (simp add: io_update_def)

text \<open>Binding is evaluated from the left.\<close>

lemma io_bind_Done [io_simps]: "m w = Done x w' \<Longrightarrow> io_bind m f w = f x w'"
  by (simp add: io_bind_def)

lemma io_bind_Exited [io_simps]: "m w = Exited w' \<Longrightarrow> io_bind m f w = Exited w'"
  by (simp add: io_bind_def)

lemma io_bind_Blocked [io_simps]: "m w = Blocked w' \<Longrightarrow> io_bind m f w = Blocked w'"
  by (simp add: io_bind_def)

lemma io_bind_Faulted [io_simps]: "m w = Faulted e w' \<Longrightarrow> io_bind m f w = Faulted e w'"
  by (simp add: io_bind_def)

lemma io_bind_cong [fundef_cong]:
  "m = m' \<Longrightarrow> w = w' \<Longrightarrow> (\<And>x v. m' w' = Done x v \<Longrightarrow> f x v = f' x v) \<Longrightarrow>
   io_bind m f w = io_bind m' f' w'"
  by (auto simp: io_bind_def split: outcome.split)

lemma io_bind_DoneE:
  assumes "io_bind m f w = Done y w'"
  obtains x v where "m w = Done x v" "f x v = Done y w'"
  using assms by (auto simp: io_bind_def split: outcome.splits)

section \<open>Buffers\<close>

text \<open>
  A buffer of \<open>n\<close> bytes holding a C string. The bytes behind the terminator are shown as zeros;
  nothing reads them.
\<close>

definition buffer :: "nat \<Rightarrow> string \<Rightarrow> string" where
  "buffer n s = take n (s @ replicate (n - length s) NUL)"

lemma length_buffer [simp]: "length (buffer n s) = n"
  by (simp add: buffer_def)

text \<open>
  What the string functions see of a zeroed buffer of \<open>n\<close> bytes into which \<open>bs\<close> was received: the
  bytes before the first zero. With no zero in all \<open>n\<close> bytes they run past the end.
\<close>

definition buffer_string :: "nat \<Rightarrow> string \<Rightarrow> fault + string" where
  "buffer_string n bs =
     (if length bs < n \<or> NUL \<in> set bs then Inr (cstr bs) else Inl OutOfBounds)"

text \<open>An \<^verbatim>\<open>int\<close> on the wire: four bytes, the lowest first.\<close>

definition int_bytes :: "int \<Rightarrow> string" where
  "int_bytes i = map (\<lambda>k. char_of (i div 256 ^ k)) [0, 1, 2, 3]"

definition bytes_int :: "string \<Rightarrow> int" where
  "bytes_int bs =
     signed_take_bit 31 (\<Sum>k\<leftarrow>[0, 1, 2, 3]. (of_char (bs ! k) :: int) * 256 ^ k)"

text \<open>
  A received integer: fewer than four bytes leave the rest of the variable as it was, \<open>old\<close>.
\<close>

definition int_received :: "int \<Rightarrow> string \<Rightarrow> int" where
  "int_received old bs = bytes_int (take 4 bs @ drop (length bs) (int_bytes old))"

section \<open>Sockets\<close>

definition in_size :: "string option list \<Rightarrow> nat" where
  "in_size q = (\<Sum>r\<leftarrow>q. case r of None \<Rightarrow> 1 | Some bs \<Rightarrow> Suc (length bs))"

text \<open>
  \<^verbatim>\<open>recv\<close> into \<open>n\<close> bytes; what does not fit stays in the stream. The result \<open>None\<close> is \<open>-1\<close>.
\<close>

definition recv :: "nat \<Rightarrow> nat \<Rightarrow> ('z world_scheme, string option) io" where
  "recv s n w =
     (case w_in w s of
        [] \<Rightarrow> Blocked w
      | None # q \<Rightarrow> Done None (w\<lparr>w_in := (w_in w)(s := q)\<rparr>)
      | Some bs # q \<Rightarrow>
          Done (Some (take n bs))
            (w\<lparr>w_in := (w_in w)(s := if length bs \<le> n then q else Some (drop n bs) # q)\<rparr>))"

definition happens :: "event \<Rightarrow> 'z world_scheme \<Rightarrow> 'z world_scheme" where
  "happens e w = w\<lparr>w_events := w_events w @ [e]\<rparr>"

text \<open>The result of \<^verbatim>\<open>send\<close>: whether it is not negative.\<close>

definition send :: "nat \<Rightarrow> string \<Rightarrow> ('z world_scheme, bool) io" where
  "send s bs w =
     (case w_send_ok w of
        [] \<Rightarrow> Done True (happens (Sent s bs) w)
      | ok # oks \<Rightarrow>
          (let w' = w\<lparr>w_send_ok := oks\<rparr>
           in if ok then Done True (happens (Sent s bs) w') else Done False w'))"

definition close_socket :: "nat \<Rightarrow> ('z world_scheme, unit) io" where
  "close_socket s = io_update (happens (Closed s))"

definition print_line :: "string \<Rightarrow> ('z world_scheme, unit) io" where
  "print_line s = io_update (happens (Printed s))"

text \<open>\<^verbatim>\<open>socket\<close> and \<^verbatim>\<open>connect\<close>; a failure of either ends the program in all callers.\<close>

definition open_socket :: "string \<Rightarrow> int \<Rightarrow> ('z world_scheme, nat) io" where
  "open_socket ip port w =
     (case w_connect w of
        Some q # cs \<Rightarrow>
          (let s = w_next w
           in Done s (happens (Opened s ip port)
                (w\<lparr>w_connect := cs, w_next := s + 1, w_in := (w_in w)(s := q)\<rparr>)))
      | _ \<Rightarrow> Exited w)"

text \<open>The idioms of the code: on failure call \<^verbatim>\<open>exit\<close>, or return 0.\<close>

definition send_or_exit :: "nat \<Rightarrow> string \<Rightarrow> ('z world_scheme, unit) io" where
  "send_or_exit s bs = io_bind (send s bs) (\<lambda>ok. if ok then io_return () else io_exit)"

definition recv_or_exit :: "nat \<Rightarrow> nat \<Rightarrow> ('z world_scheme, string) io" where
  "recv_or_exit s n =
     io_bind (recv s n) (\<lambda>r. case r of None \<Rightarrow> io_exit | Some bs \<Rightarrow> io_return bs)"

definition send_or_0 :: "nat \<Rightarrow> string \<Rightarrow> ('z world_scheme, int) io \<Rightarrow> ('z world_scheme, int) io" where
  "send_or_0 s bs k = io_bind (send s bs) (\<lambda>ok. if ok then k else io_return 0)"

definition recv_or_0 :: "nat \<Rightarrow> nat \<Rightarrow> (string \<Rightarrow> ('z world_scheme, int) io) \<Rightarrow> ('z world_scheme, int) io" where
  "recv_or_0 s n k = io_bind (recv s n) (\<lambda>r. case r of None \<Rightarrow> io_return 0 | Some bs \<Rightarrow> k bs)"

definition received_string :: "nat \<Rightarrow> string \<Rightarrow> ('z world_scheme, string) io" where
  "received_string n bs = io_lift (buffer_string n bs)"

section \<open>Files\<close>

text \<open>
  \<^verbatim>\<open>fopen\<close> for reading gives the content (a directory opens and reads as empty); for writing it
  empties or creates the file. \<^verbatim>\<open>fwrite\<close> appends. Repeated \<^verbatim>\<open>fread\<close> calls of \<^verbatim>\<open>CHUNK_SIZE\<close> bytes cut
  the content into chunks.
\<close>

definition open_read :: "string \<Rightarrow> ('z world_scheme, string option) io" where
  "open_read name w =
     Done (case w_files w name of None \<Rightarrow> None | Some (File s) \<Rightarrow> Some s | Some Dir \<Rightarrow> Some []) w"

definition open_write :: "string \<Rightarrow> ('z world_scheme, bool) io" where
  "open_write name w =
     (if w_locked w name \<or> w_files w name = Some Dir then Done False w
      else Done True (w\<lparr>w_files := (w_files w)(name \<mapsto> File [])\<rparr>))"

definition append_file :: "string \<Rightarrow> string \<Rightarrow> ('z world_scheme, unit) io" where
  "append_file name bs w =
     Done () (w\<lparr>w_files := (w_files w)
       (name \<mapsto> File ((case w_files w name of Some (File s) \<Rightarrow> s | _ \<Rightarrow> []) @ bs))\<rparr>)"

function chunks :: "string \<Rightarrow> string list" where
  "chunks s = (if s = [] then [] else take CHUNK_SIZE s # chunks (drop CHUNK_SIZE s))"
  by pat_completeness auto

termination
  by (relation "measure length") (auto simp: CHUNK_SIZE_def)

declare chunks.simps [simp del]

lemma concat_chunks [simp]: "concat (chunks s) = s"
proof (induction s rule: chunks.induct)
  case (1 s)
  then show ?case by (subst chunks.simps) simp
qed

lemma chunks_size: "c \<in> set (chunks s) \<Longrightarrow> 0 < length c \<and> length c \<le> CHUNK_SIZE"
proof (induction s rule: chunks.induct)
  case (1 s)
  show ?case
  proof (cases "s = []")
    case True
    then show ?thesis using "1.prems" by (simp add: chunks.simps)
  next
    case False
    then have "chunks s = take CHUNK_SIZE s # chunks (drop CHUNK_SIZE s)" by (subst chunks.simps) simp
    with 1 False show ?thesis by (auto simp: CHUNK_SIZE_def)
  qed
qed

lemma chunks_chars: "c \<in> set (chunks s) \<Longrightarrow> set c \<subseteq> set s"
  using concat_chunks [of s] by (metis UN_upper set_concat)

section \<open>Facts about buffers\<close>

lemma buffer_short: "length s \<le> n \<Longrightarrow> buffer n s = s @ replicate (n - length s) NUL"
  by (simp add: buffer_def)

lemma cstr_buffer [cstr_simps]: "NUL \<notin> set s \<Longrightarrow> length s \<le> n \<Longrightarrow> cstr (buffer n s) = s"
  by (simp add: buffer_short cstr_pad)

text \<open>A string sent in its buffer arrives as that string in any buffer as large.\<close>

lemma buffer_string_buffer [cstr_simps]:
  "NUL \<notin> set s \<Longrightarrow> length s < n \<Longrightarrow> buffer_string m (buffer n s) = Inr s"
  by (simp add: buffer_string_def cstr_buffer) (simp add: buffer_short)

lemma buffer_string_short [cstr_simps]:
  "NUL \<notin> set s \<Longrightarrow> length s < m \<Longrightarrow> buffer_string m s = Inr s"
  by (simp add: buffer_string_def cstr_id)

lemma in_size_Cons [simp]:
  "in_size (None # q) = Suc (in_size q)" "in_size (Some bs # q) = Suc (length bs) + in_size q"
  "in_size [] = 0"
  by (simp_all add: in_size_def)

text \<open>Every \<^verbatim>\<open>recv\<close> that returns takes something from the stream; sending takes nothing.\<close>

lemma recv_in_size:
  "recv s n w = Done r w' \<Longrightarrow> 0 < n \<Longrightarrow> in_size (w_in w' s) < in_size (w_in w s)"
  by (auto simp: recv_def split: list.splits option.splits if_splits)

lemma recv_other: "recv s n w = Done r w' \<Longrightarrow> t \<noteq> s \<Longrightarrow> w_in w' t = w_in w t"
  by (auto simp: recv_def split: list.splits option.splits if_splits)

lemma send_in: "send s bs w = Done r w' \<Longrightarrow> w_in w' = w_in w"
  by (auto simp: send_def happens_def Let_def split: list.splits if_splits)

lemma recv_or_exit_in_size:
  "recv_or_exit s n w = Done bs w' \<Longrightarrow> 0 < n \<Longrightarrow> in_size (w_in w' s) < in_size (w_in w s)"
  by (auto simp: recv_or_exit_def io_simps elim!: io_bind_DoneE dest!: recv_in_size split: option.splits)

lemma send_or_exit_in: "send_or_exit s bs w = Done u w' \<Longrightarrow> w_in w' = w_in w"
  by (auto simp: send_or_exit_def io_simps elim!: io_bind_DoneE dest!: send_in split: if_splits)

lemma received_string_same: "received_string n bs w = Done x w' \<Longrightarrow> w' = w"
  by (auto simp: received_string_def io_lift_def io_simps split: sum.splits)

section \<open>Integers on the wire\<close>

lemma four_digits:
  "x = 256 * A + a \<Longrightarrow> A = 256 * B + b \<Longrightarrow> B = 256 * C + c \<Longrightarrow>
   a + b * 256 + c * 65536 + C * 16777216 = (x :: int)"
  by simp

lemma bytes_sum:
  "i mod 256 + i div 256 mod 256 * 256 + i div 65536 mod 256 * 65536 + i div 16777216 mod 256 * 16777216 =
   i mod (4294967296 :: int)"
proof (rule four_digits)
  have "i mod (256 * 16777216) = 256 * (i div 256 mod 16777216) + i mod 256"
    by (rule zmod_zmult2_eq) simp
  then show "i mod 4294967296 = 256 * (i div 256 mod 16777216) + i mod 256" by simp
  have "i div 256 mod (256 * 65536) = 256 * (i div 256 div 256 mod 65536) + i div 256 mod 256"
    by (rule zmod_zmult2_eq) simp
  moreover have "i div 256 div 256 = i div 65536" using zdiv_zmult2_eq [of 256 i 256] by simp
  ultimately show "i div 256 mod 16777216 = 256 * (i div 65536 mod 65536) + i div 256 mod 256" by simp
  have "i div 65536 mod (256 * 256) = 256 * (i div 65536 div 256 mod 256) + i div 65536 mod 256"
    by (rule zmod_zmult2_eq) simp
  moreover have "i div 65536 div 256 = i div 16777216" using zdiv_zmult2_eq [of 256 i 65536] by simp
  ultimately show "i div 65536 mod 65536 = 256 * (i div 16777216 mod 256) + i div 65536 mod 256" by simp
qed

lemma length_int_bytes [simp]: "length (int_bytes i) = 4"
  by (simp add: int_bytes_def)

lemma int_bytes_roundtrip:
  assumes "- (2 ^ 31) \<le> i" and "i < 2 ^ 31"
  shows "bytes_int (int_bytes i) = i"
proof -
  have "(\<Sum>k\<leftarrow>[0, 1, 2, 3]. (of_char (int_bytes i ! k) :: int) * 256 ^ k) = i mod 4294967296"
    unfolding bytes_sum [of i, symmetric]
    by (simp add: int_bytes_def nth_Cons numeral_2_eq_2 numeral_3_eq_3 del: mod_mult_self1)
  also have "\<dots> = take_bit 32 i" by (simp add: take_bit_eq_mod)
  finally have "bytes_int (int_bytes i) = signed_take_bit 31 (take_bit 32 i)"
    by (simp add: bytes_int_def)
  also have "\<dots> = signed_take_bit 31 i" by (simp add: signed_take_bit_take_bit)
  also have "\<dots> = i" using assms by (simp add: signed_take_bit_int_eq_self)
  finally show ?thesis .
qed

lemma int_received_whole [cstr_simps]:
  "- (2 ^ 31) \<le> i \<Longrightarrow> i < 2 ^ 31 \<Longrightarrow> int_received old (int_bytes i) = i"
  by (simp add: int_received_def int_bytes_roundtrip)

end
