(* ===== verification/Hash_Data.thy ===== *)
theory Hash_Data
  imports NFS_Prelude
begin

text \<open>
  The hash function \<^verbatim>\<open>hash_data\<close> of hashmap/map.c: 64-bit state, eight key bytes per round in
  little-endian order, a last round for the remaining bytes with the low byte of the size in
  front, and a fold to 32 bits. All arithmetic is on machine words, so multiplication wraps
  as it does in C.
\<close>

unbundle bit_operations_syntax

definition HASHMAP_HASH_INIT :: "64 word" where
  "HASHMAP_HASH_INIT = 2166136261"

definition block_multiplier :: "64 word" where
  "block_multiplier = 0xbf58476d1ce4e5b9"

definition tail_multiplier :: "64 word" where
  "tail_multiplier = 0xd6e8feb86659fd93"

text \<open>The expression \<^verbatim>\<open>(uint64_t)data[i] << (8*s)\<close>.\<close>

definition byte_at :: "string \<Rightarrow> nat \<Rightarrow> nat \<Rightarrow> 64 word" where
  "byte_at data i s = push_bit (8 * s) (of_char (data ! i))"

definition block_word :: "string \<Rightarrow> 64 word" where
  "block_word data =
     byte_at data 0 0 OR byte_at data 1 1 OR byte_at data 2 2 OR byte_at data 3 3 OR
     byte_at data 4 4 OR byte_at data 5 5 OR byte_at data 6 6 OR byte_at data 7 7"

text \<open>
  One round of the loop over the blocks, and the loop: \<^verbatim>\<open>nblocks\<close> rounds, each of which
  moves the data pointer eight bytes on.
\<close>

definition hash_round :: "64 word \<Rightarrow> 64 word \<Rightarrow> 64 word" where
  "hash_round hash w = (hash XOR w) * block_multiplier"

fun hash_blocks :: "nat \<Rightarrow> string \<Rightarrow> 64 word \<Rightarrow> string \<times> 64 word" where
  "hash_blocks 0 data hash = (data, hash)"
| "hash_blocks (Suc n) data hash =
     hash_blocks n (drop 8 data) (hash_round hash (block_word data))"

text \<open>
  The \<^verbatim>\<open>switch\<close> with its fall-through cases: case \<^verbatim>\<open>k\<close> is executed when the number of remaining
  bytes is at least \<^verbatim>\<open>k\<close>.
\<close>

definition tail_word :: "string \<Rightarrow> nat \<Rightarrow> 64 word" where
  "tail_word data sz =
     (let r = sz mod 8;
          l = (of_nat sz :: 64 word) AND 0xff;
          l = (if 7 \<le> r then l OR byte_at data 6 7 else l);
          l = (if 6 \<le> r then l OR byte_at data 5 6 else l);
          l = (if 5 \<le> r then l OR byte_at data 4 5 else l);
          l = (if 4 \<le> r then l OR byte_at data 3 4 else l);
          l = (if 3 \<le> r then l OR byte_at data 2 3 else l);
          l = (if 2 \<le> r then l OR byte_at data 1 2 else l);
          l = (if 1 \<le> r then l OR byte_at data 0 1 else l)
      in l)"

definition hash_state :: "string \<Rightarrow> nat \<Rightarrow> 64 word" where
  "hash_state data sz =
     (let (rest, hash) = hash_blocks (sz div 8) data HASHMAP_HASH_INIT
      in if sz mod 8 = 0 then hash
         else (hash XOR tail_word rest sz) * tail_multiplier)"

definition hash_data :: "string \<Rightarrow> nat \<Rightarrow> 32 word" where
  "hash_data data sz =
     (let hash = hash_state data sz in ucast (hash XOR drop_bit 32 hash))"

section \<open>The hash reads the first \<open>sz\<close> bytes only\<close>

lemma byte_at_take: "i < n \<Longrightarrow> byte_at (take n data) i s = byte_at data i s"
  by (simp add: byte_at_def)

lemma block_word_take: "8 \<le> n \<Longrightarrow> block_word (take n data) = block_word data"
  by (simp add: block_word_def byte_at_take)

lemma tail_word_take: "sz mod 8 \<le> n \<Longrightarrow> tail_word (take n data) sz = tail_word data sz"
  unfolding tail_word_def Let_def by (simp add: byte_at_take)

lemma hash_blocks_take:
  "8 * n \<le> k \<Longrightarrow>
   hash_blocks n (take k data) h =
     (take (k - 8 * n) (fst (hash_blocks n data h)), snd (hash_blocks n data h))"
proof (induction n arbitrary: data h k)
  case 0
  then show ?case by simp
next
  case (Suc n)
  then have "8 \<le> k" and le: "8 * n \<le> k - 8" by simp_all
  then have "drop 8 (take k data) = take (k - 8) (drop 8 data)"
    by (simp add: drop_take)
  with Suc.IH [OF le] \<open>8 \<le> k\<close> show ?case
    by (simp add: block_word_take)
qed

lemma hash_data_take: "hash_data (take sz data) sz = hash_data data sz"
proof -
  have le: "8 * (sz div 8) \<le> sz" by simp
  have rest: "sz mod 8 \<le> sz - 8 * (sz div 8)"
    by (simp add: minus_mult_div_eq_mod)
  show ?thesis
    unfolding hash_data_def hash_state_def
    by (simp add: hash_blocks_take [OF le] tail_word_take [OF rest] split_beta Let_def)
qed

section \<open>Rounds lose nothing\<close>

text \<open>
  Both multipliers are odd, hence invertible modulo \<open>2 ^ 64\<close>: a round is a bijection of the
  state for a fixed block, and of the block for a fixed state. Two keys of equal size can only
  collide in the final fold to 32 bits or by cancelling between rounds.
\<close>

definition block_inverse :: "64 word" where
  "block_inverse = 0x96de1b173f119089"

definition tail_inverse :: "64 word" where
  "tail_inverse = 0xcfee444d8b59a89b"

lemma block_multiplier_invertible: "block_multiplier * block_inverse = 1"
  by (simp add: block_multiplier_def block_inverse_def)

lemma tail_multiplier_invertible: "tail_multiplier * tail_inverse = 1"
  by (simp add: tail_multiplier_def tail_inverse_def)

lemma mult_invertible_inj:
  fixes c d x y :: "64 word"
  assumes "c * d = 1" and "x * c = y * c"
  shows "x = y"
proof -
  have "x * (c * d) = y * (c * d)"
    using assms(2) by (simp add: mult.assoc [symmetric])
  with assms(1) show ?thesis by simp
qed

lemma xor_left_inj: "(h :: 64 word) XOR a = h XOR b \<longleftrightarrow> a = b"
proof
  assume "h XOR a = h XOR b"
  then have "h XOR (h XOR a) = h XOR (h XOR b)" by simp
  then show "a = b" by (simp add: xor.assoc [symmetric])
qed simp

lemma xor_right_inj: "(a :: 64 word) XOR h = b XOR h \<longleftrightarrow> a = b"
  by (simp only: xor.commute [of _ h] xor_left_inj)

lemma hash_round_inj_state: "hash_round h w = hash_round h' w \<longleftrightarrow> h = h'"
  unfolding hash_round_def
  by (metis mult_invertible_inj [OF block_multiplier_invertible] xor_right_inj)

lemma hash_round_inj_word: "hash_round h w = hash_round h w' \<longleftrightarrow> w = w'"
  unfolding hash_round_def
  by (metis mult_invertible_inj [OF block_multiplier_invertible] xor_left_inj)

lemma bit_byte_at:
  "s < 8 \<Longrightarrow> bit (byte_at data i s) n \<longleftrightarrow>
     8 * s \<le> n \<and> n < 8 * s + 8 \<and> bit (of_char (data ! i) :: nat) (n - 8 * s)"
proof -
  assume s: "s < 8"
  have small: "\<not> bit (of_char (data ! i) :: nat) m" if "8 \<le> m" for m
  proof -
    have "(of_char (data ! i) :: nat) < 2 ^ 8" by (simp add: of_char_def)
    moreover have "(2 :: nat) ^ 8 \<le> 2 ^ m" using that by (rule power_increasing) simp
    ultimately have "(of_char (data ! i) :: nat) < 2 ^ m" by linarith
    then show ?thesis by (simp add: bit_iff_odd)
  qed
  have word: "bit (of_char (data ! i) :: 64 word) m \<longleftrightarrow>
      m < 64 \<and> bit (of_char (data ! i) :: nat) m" for m
    by (simp only: of_nat_of_char [symmetric, where 'a = "64 word"] bit_of_nat_iff)
       (simp add: possible_bit_word)
  have shift: "bit (byte_at data i s) n \<longleftrightarrow>
      8 * s \<le> n \<and> n < 64 \<and> bit (of_char (data ! i) :: 64 word) (n - 8 * s)"
    by (auto simp: byte_at_def bit_push_bit_iff)
  show ?thesis
    unfolding shift word using s small [of "n - 8 * s"] by linarith
qed

lemma hash_blocks_inj_state:
  "snd (hash_blocks n data h) = snd (hash_blocks n data h') \<longleftrightarrow> h = h'"
  by (induction n arbitrary: data h h') (simp_all add: hash_round_inj_state)

text \<open>Each byte of a block, and each remaining byte of the key, can be read off the word.\<close>

lemma less_8_cases:
  fixes s :: nat
  assumes "s < 8"
  shows "s = 0 \<or> s = 1 \<or> s = 2 \<or> s = 3 \<or> s = 4 \<or> s = 5 \<or> s = 6 \<or> s = 7"
  using assms by arith

lemma bit_block_word:
  assumes "s < 8" and "k < 8"
  shows "bit (block_word data) (8 * s + k) \<longleftrightarrow> bit (of_char (data ! s) :: nat) k"
  using less_8_cases [OF assms(1)] assms(2)
  by (elim disjE) (simp_all add: block_word_def bit_or_iff bit_byte_at)

lemma char_eqI:
  assumes "\<And>k. k < 8 \<Longrightarrow> bit (of_char c :: nat) k \<longleftrightarrow> bit (of_char d :: nat) k"
  shows "c = d"
proof -
  have small: "bit (of_char c' :: nat) k \<Longrightarrow> k < 8" for c' :: char and k
  proof (rule ccontr)
    assume b: "bit (of_char c' :: nat) k" and "\<not> k < 8"
    then have "(2 :: nat) ^ 8 \<le> 2 ^ k" by (intro power_increasing) simp_all
    moreover have "(of_char c' :: nat) < 2 ^ 8" by (simp add: of_char_def)
    ultimately have "(of_char c' :: nat) < 2 ^ k" by linarith
    with b show False by (simp add: bit_iff_odd)
  qed
  have "(of_char c :: nat) = of_char d"
    by (rule bit_eqI) (use assms small in blast)
  then show ?thesis by simp
qed

lemma block_word_inj:
  assumes "block_word a = block_word b" and "8 \<le> length a" and "8 \<le> length b"
  shows "take 8 a = take 8 b"
proof (rule nth_equalityI)
  show "length (take 8 a) = length (take 8 b)" using assms by simp
  fix s assume "s < length (take 8 a)"
  then have s: "s < 8" by simp
  have "a ! s = b ! s"
    by (rule char_eqI) (metis assms(1) bit_block_word [OF s])
  with s show "take 8 a ! s = take 8 b ! s" by simp
qed

lemma bit_tail_word:
  assumes "s < sz mod 8" and "k < 8"
  shows "bit (tail_word data sz) (8 * Suc s + k) \<longleftrightarrow> bit (of_char (data ! s) :: nat) k"
proof -
  have "s < 8" using assms(1) by (meson less_trans mod_less_divisor zero_less_numeral)
  have low: "\<not> bit ((of_nat sz :: 64 word) AND 0xff) (8 * Suc s + k)"
  proof -
    have "(0xff :: 64 word) = mask 8" by (simp add: mask_eq_exp_minus_1)
    then show ?thesis by (simp only: bit_and_iff bit_mask_iff) simp
  qed
  have r: "sz mod 8 < 8" by simp
  from less_8_cases [OF \<open>s < 8\<close>] assms low r show ?thesis
    by (elim disjE) (simp_all add: tail_word_def Let_def bit_or_iff bit_byte_at)
qed

lemma tail_word_inj:
  assumes "tail_word a sz = tail_word b sz"
    and "sz mod 8 \<le> length a" and "sz mod 8 \<le> length b"
  shows "take (sz mod 8) a = take (sz mod 8) b"
proof (rule nth_equalityI)
  show "length (take (sz mod 8) a) = length (take (sz mod 8) b)" using assms by simp
  fix s assume "s < length (take (sz mod 8) a)"
  then have s: "s < sz mod 8" by simp
  have "a ! s = b ! s"
    by (rule char_eqI) (metis assms(1) bit_tail_word [OF s])
  with s show "take (sz mod 8) a ! s = take (sz mod 8) b ! s" by simp
qed

section \<open>The loop as a fold over the blocks\<close>

lemma hash_blocks_fold:
  "hash_blocks n data h =
     (drop (8 * n) data,
      fold (\<lambda>j h. hash_round h (block_word (drop (8 * j) data))) [0..<n] h)"
proof (induction n arbitrary: data h)
  case 0
  then show ?case by simp
next
  case (Suc n)
  have "fold (\<lambda>j h. hash_round h (block_word (drop (8 * j) data))) [0..<Suc n] h =
      fold (\<lambda>j h. hash_round h (block_word (drop (8 * j) data))) (map Suc [0..<n])
        (hash_round h (block_word data))"
    by (subst upt_conv_Cons) (simp_all add: map_Suc_upt)
  also have "\<dots> = fold (\<lambda>j h. hash_round h (block_word (drop (8 * j) (drop 8 data)))) [0..<n]
        (hash_round h (block_word data))"
    by (simp add: fold_map comp_def add.commute)
  finally show ?case by (simp add: Suc.IH add.commute [of 8])
qed

lemma fold_rounds_inj:
  "fold (\<lambda>j h. hash_round h (w j)) js h = fold (\<lambda>j h. hash_round h (w j)) js h' \<longleftrightarrow> h = h'"
  by (induction js arbitrary: h h') (simp_all add: hash_round_inj_state)

lemma block_word_cong:
  assumes "\<And>k. k < 8 \<Longrightarrow> a ! k = b ! k"
  shows "block_word a = block_word b"
  using assms by (simp add: block_word_def byte_at_def)

lemma fold_rounds_differ:
  assumes i: "i < n" and other: "\<And>j. j < n \<Longrightarrow> j \<noteq> i \<Longrightarrow> w j = w' j" and diff: "w i \<noteq> w' i"
  shows "fold (\<lambda>j h. hash_round h (w j)) [0..<n] h \<noteq> fold (\<lambda>j h. hash_round h (w' j)) [0..<n] h"
proof -
  have split: "[0..<n] = [0..<i] @ i # [Suc i..<n]"
    using i by (metis upt_conv_Cons upt_add_eq_append le_add_diff_inverse less_imp_le zero_le)
  have before: "fold (\<lambda>j h. hash_round h (w j)) [0..<i] h = fold (\<lambda>j h. hash_round h (w' j)) [0..<i] h"
    by (rule fold_cong) (use i other in auto)
  have after: "fold (\<lambda>j h. hash_round h (w j)) [Suc i..<n] x = fold (\<lambda>j h. hash_round h (w' j)) [Suc i..<n] x"
    for x by (rule fold_cong) (use i other in auto)
  show ?thesis
    unfolding split using diff
    by (simp add: before after fold_rounds_inj hash_round_inj_word)
qed

text \<open>
  The state as a fold of the full blocks followed by the round for the remaining bytes.
\<close>

definition full_blocks :: "string \<Rightarrow> nat \<Rightarrow> 64 word" where
  "full_blocks data n =
     fold (\<lambda>j h. hash_round h (block_word (drop (8 * j) data))) [0..<n] HASHMAP_HASH_INIT"

lemma hash_state_eq:
  "hash_state data sz =
     (if sz mod 8 = 0 then full_blocks data (sz div 8)
      else (full_blocks data (sz div 8) XOR tail_word (drop (8 * (sz div 8)) data) sz) *
             tail_multiplier)"
  by (simp add: hash_state_def hash_blocks_fold full_blocks_def)

lemma tail_round_inj_state:
  "((h :: 64 word) XOR t) * tail_multiplier = (h' XOR t) * tail_multiplier \<longleftrightarrow> h = h'"
  by (metis mult_invertible_inj [OF tail_multiplier_invertible] xor_right_inj)

lemma tail_round_inj_word:
  "((h :: 64 word) XOR t) * tail_multiplier = (h XOR t') * tail_multiplier \<longleftrightarrow> t = t'"
  by (metis mult_invertible_inj [OF tail_multiplier_invertible] xor_left_inj)

lemma tail_word_cong:
  assumes "\<And>k. k < sz mod 8 \<Longrightarrow> a ! k = b ! k"
  shows "tail_word a sz = tail_word b sz"
  using assms by (simp add: tail_word_def byte_at_def Let_def)

lemma block_bytes:
  fixes i j sz :: nat
  assumes "i < sz div 8" and "j < 8"
  shows "8 * i + j < sz" and "(8 * i + j) div 8 = i"
  using assms by auto

lemma tail_bytes:
  fixes j sz :: nat
  assumes "j < sz mod 8"
  shows "8 * (sz div 8) + j < sz" and "(8 * (sz div 8) + j) div 8 = sz div 8"
proof -
  have "j < 8" using assms by (meson less_trans mod_less_divisor zero_less_numeral)
  then show "(8 * (sz div 8) + j) div 8 = sz div 8" by simp
  show "8 * (sz div 8) + j < sz" using assms
    by (metis add.commute mult_div_mod_eq nat_add_left_cancel_less)
qed

lemma full_blocks_differ:
  assumes i: "i < n" and n: "n \<le> sz div 8" and len: "sz \<le> length a" "sz \<le> length b"
    and same: "\<And>j. j < sz \<Longrightarrow> j div 8 \<noteq> i \<Longrightarrow> a ! j = b ! j"
    and d: "d < sz" "d div 8 = i" "a ! d \<noteq> b ! d"
  shows "full_blocks a n \<noteq> full_blocks b n"
  unfolding full_blocks_def
proof (rule fold_rounds_differ [OF i])
  fix j assume "j < n" "j \<noteq> i"
  then have "j < sz div 8" using n by simp
  then show "block_word (drop (8 * j) a) = block_word (drop (8 * j) b)"
    using len block_bytes [of j sz] same \<open>j \<noteq> i\<close> by (intro block_word_cong) (simp add: add.commute)
next
  have i': "i < sz div 8" using i n by simp
  have room: "8 * i + 8 \<le> sz" using i' by (metis Suc_leI div_times_less_eq_dividend le_trans
      mult.commute mult_Suc_right mult_le_mono2 add.commute)
  have pos: "d = 8 * i + d mod 8" using d(2) by (metis mult_div_mod_eq)
  show "block_word (drop (8 * i) a) \<noteq> block_word (drop (8 * i) b)"
  proof
    assume "block_word (drop (8 * i) a) = block_word (drop (8 * i) b)"
    then have eq: "take 8 (drop (8 * i) a) = take 8 (drop (8 * i) b)"
      using len room by (intro block_word_inj) auto
    have "take 8 (drop (8 * i) a) ! (d mod 8) = take 8 (drop (8 * i) b) ! (d mod 8)"
      by (simp only: eq)
    with d(3) pos len room show False by simp
  qed
qed

lemma tail_words_differ:
  assumes len: "sz \<le> length a" "sz \<le> length b"
    and d: "d < sz" "d div 8 = sz div 8" "a ! d \<noteq> b ! d"
  shows "tail_word (drop (8 * (sz div 8)) a) sz \<noteq> tail_word (drop (8 * (sz div 8)) b) sz"
proof
  define m where "m = 8 * (sz div 8)"
  have split: "sz = m + sz mod 8" unfolding m_def by simp
  have pos: "d = m + d mod 8" unfolding m_def using d(2) by (metis mult_div_mod_eq)
  have dm: "d mod 8 < sz mod 8" using d(1) split pos by linarith
  assume "tail_word (drop (8 * (sz div 8)) a) sz = tail_word (drop (8 * (sz div 8)) b) sz"
  then have "take (sz mod 8) (drop m a) = take (sz mod 8) (drop m b)"
    unfolding m_def [symmetric] using len split by (intro tail_word_inj) auto
  then have "drop m a ! (d mod 8) = drop m b ! (d mod 8)"
    using dm by (metis nth_take)
  moreover have "m \<le> length a" "m \<le> length b" using len split by linarith+
  ultimately show False using d(3) pos by simp
qed

text \<open>
  Claim C40. A change of the key that stays inside one eight-byte block (or inside the
  remaining bytes) always changes the 64-bit hash state: neither multiplication of
  \<^verbatim>\<open>hash_data\<close> loses information, so such keys can collide only in the fold to 32 bits.
\<close>

theorem hash_state_block_change:
  assumes "sz \<le> length a" and "sz \<le> length b"
    and same: "\<forall>j < sz. j div 8 \<noteq> i \<longrightarrow> a ! j = b ! j"
    and diff: "take sz a \<noteq> take sz b"
  shows "hash_state a sz \<noteq> hash_state b sz"
proof -
  obtain d where d: "d < sz" "a ! d \<noteq> b ! d"
    using diff assms(1,2) by (metis nth_take_lemma)
  with same have di: "d div 8 = i" by blast
  have same': "\<And>j. j < sz \<Longrightarrow> j div 8 \<noteq> i \<Longrightarrow> a ! j = b ! j" using same by blast
  have "i \<le> sz div 8" using d di by (auto intro: div_le_mono)
  then consider (block) "i < sz div 8" | (tail) "i = sz div 8" by linarith
  then show ?thesis
  proof cases
    case block
    have "full_blocks a (sz div 8) \<noteq> full_blocks b (sz div 8)"
      by (rule full_blocks_differ [OF block order_refl assms(1,2) same' d(1) di d(2)])
    moreover have "drop (8 * (sz div 8)) a ! k = drop (8 * (sz div 8)) b ! k"
      if "k < sz mod 8" for k
      using tail_bytes [OF that] assms(1,2) block same' by simp
    ultimately show ?thesis
      by (simp add: hash_state_eq tail_word_cong [of sz "drop _ a" "drop _ b"] tail_round_inj_state)
  next
    case tail
    have eq: "full_blocks a (sz div 8) = full_blocks b (sz div 8)"
      unfolding full_blocks_def
    proof (rule fold_cong)
      fix j assume "j \<in> set [0..<sz div 8]"
      then have "block_word (drop (8 * j) a) = block_word (drop (8 * j) b)"
        using assms(1,2) block_bytes [of j sz] tail same'
        by (intro block_word_cong) (simp add: add.commute)
      then show "(\<lambda>h. hash_round h (block_word (drop (8 * j) a))) =
          (\<lambda>h. hash_round h (block_word (drop (8 * j) b)))" by simp
    qed simp_all
    have "sz mod 8 \<noteq> 0"
    proof
      assume "sz mod 8 = 0"
      then have "sz = 8 * (sz div 8)" by auto
      moreover have "8 * (d div 8) \<le> d" by simp
      ultimately show False using d(1) di tail by linarith
    qed
    with tail_words_differ [OF assms(1,2) d(1) _ d(2)] di tail eq show ?thesis
      by (simp add: hash_state_eq tail_round_inj_word)
  qed
qed

theorem hash_state_block_change_witness:
  "hash_state ''14 97 /ab'' 9 \<noteq> hash_state ''14 97 /ac'' 9"
proof -
  have "\<forall>j < 9. j div 8 \<noteq> 1 \<longrightarrow> ''14 97 /ab'' ! j = ''14 97 /ac'' ! j"
  proof (intro allI impI)
    fix j :: nat assume "j < 9" "j div 8 \<noteq> 1"
    then have "j < 8" by linarith
    from less_8_cases [OF this] show "''14 97 /ab'' ! j = ''14 97 /ac'' ! j"
      by (elim disjE) simp_all
  qed
  then show ?thesis
    by (intro hash_state_block_change [where i = 1]) simp_all
qed

end
