(* ===== verification/Hashmap.thy ===== *)
theory Hashmap
  imports Hash_Data
begin

text \<open>
  The hash map of hashmap/map.c, compiled with removal (\<^verbatim>\<open>__HASHMAP_REMOVABLE\<close>): an array of
  buckets probed linearly, tombstones for removed entries, and a linked list through the used
  buckets in insertion order.

  A pointer to a bucket is its index in the array it points into (\<^verbatim>\<open>None\<close> is \<^verbatim>\<open>NULL\<close>). The field
  \<^verbatim>\<open>last\<close> points at a bucket or, in an empty list, at the \<^verbatim>\<open>first\<close> field of the map itself, which
  the model writes \<^const>\<open>None\<close>. A key pointer is modelled by the buffer it points at: the map's
  users hand over a fresh allocation for every key and never write it again. A result
  \<^const>\<open>None\<close> of an operation means that the call does not return: it probes for ever or
  follows a null pointer.
\<close>

section \<open>Data\<close>

record bucket =
  b_next :: "nat option"
  b_key :: "string option"
  b_ksize :: nat
  b_hash :: "32 word"
  b_value :: "64 word"

record hashmap =
  hm_buckets :: "bucket list"
  hm_capacity :: nat
  hm_count :: int
  hm_tombstone_count :: int
  hm_first :: "nat option"
  hm_last :: "nat option"

definition HASHMAP_DEFAULT_CAPACITY :: nat where "HASHMAP_DEFAULT_CAPACITY = 20"

definition HASHMAP_RESIZE_FACTOR :: nat where "HASHMAP_RESIZE_FACTOR = 2"

text \<open>A bucket as \<^verbatim>\<open>calloc\<close> leaves it.\<close>

definition null_bucket :: bucket where
  "null_bucket = \<lparr>b_next = None, b_key = None, b_ksize = 0, b_hash = 0, b_value = 0\<rparr>"

definition hashmap_create :: hashmap where
  "hashmap_create =
     \<lparr>hm_buckets = replicate HASHMAP_DEFAULT_CAPACITY null_bucket,
      hm_capacity = HASHMAP_DEFAULT_CAPACITY, hm_count = 0, hm_tombstone_count = 0,
      hm_first = None, hm_last = None\<rparr>"

section \<open>Writing through pointers\<close>

definition set_bucket :: "hashmap \<Rightarrow> nat \<Rightarrow> bucket \<Rightarrow> hashmap" where
  "set_bucket m i b = m\<lparr>hm_buckets := (hm_buckets m)[i := b]\<rparr>"

text \<open>The lvalue \<^verbatim>\<open>m->last->next\<close>, read and written.\<close>

definition last_next :: "hashmap \<Rightarrow> nat option" where
  "last_next m = (case hm_last m of
     None \<Rightarrow> hm_first m
   | Some i \<Rightarrow> b_next (hm_buckets m ! i))"

definition set_last_next :: "hashmap \<Rightarrow> nat option \<Rightarrow> hashmap" where
  "set_last_next m p = (case hm_last m of
     None \<Rightarrow> m\<lparr>hm_first := p\<rparr>
   | Some i \<Rightarrow> set_bucket m i ((hm_buckets m ! i)\<lparr>b_next := p\<rparr>))"

section \<open>Resizing\<close>

text \<open>
  The \<^verbatim>\<open>for (;;)\<close> loop shared by \<^verbatim>\<open>resize_entry\<close> and \<^verbatim>\<open>find_entry\<close>: look at a bucket, return it if
  it is the right one, otherwise move to the next index modulo the capacity.
\<close>

partial_function (option) linear_probe :: "(nat \<Rightarrow> bool) \<Rightarrow> nat \<Rightarrow> nat \<Rightarrow> nat option" where
  "linear_probe stop cap index =
     (if stop index then Some index else linear_probe stop cap ((index + 1) mod cap))"

declare linear_probe.simps [code]

text \<open>\<^verbatim>\<open>resize_entry\<close> copies the old bucket into the first bucket with a null key.\<close>

definition resize_entry :: "hashmap \<Rightarrow> bucket \<Rightarrow> (nat \<times> hashmap) option" where
  "resize_entry m old_entry =
     do {
       i \<leftarrow> linear_probe (\<lambda>i. b_key (hm_buckets m ! i) = None) (hm_capacity m)
             (unat (b_hash old_entry) mod hm_capacity m);
       Some (i, set_bucket m i old_entry)
     }"

text \<open>
  The body of the \<^verbatim>\<open>do\<close> loop of \<^verbatim>\<open>hashmap_resize\<close>. At its start \<^verbatim>\<open>m->last->next\<close> still points
  into the old array.
\<close>

definition resize_step :: "bucket list \<Rightarrow> hashmap \<Rightarrow> hashmap option" where
  "resize_step old m =
     (case last_next m of
        None \<Rightarrow> None
      | Some c \<Rightarrow>
          (let current = old ! c
           in if b_key current = None then Some (set_last_next m (b_next current))
              else do {
                (i, m) \<leftarrow> resize_entry m current;
                Some (set_last_next m (Some i)\<lparr>hm_last := Some i\<rparr>)
              }))"

partial_function (option) resize_loop :: "bucket list \<Rightarrow> hashmap \<Rightarrow> hashmap option" where
  "resize_loop old m =
     do {
       m \<leftarrow> resize_step old m;
       if last_next m \<noteq> None then resize_loop old m else Some m
     }"

declare resize_loop.simps [code]

definition hashmap_resize :: "hashmap \<Rightarrow> hashmap option" where
  "hashmap_resize m =
     (let old_buckets = hm_buckets m;
          cap = hm_capacity m * HASHMAP_RESIZE_FACTOR
      in resize_loop old_buckets
           (m\<lparr>hm_capacity := cap,
              hm_buckets := replicate cap null_bucket,
              hm_last := None,
              hm_count := hm_count m - hm_tombstone_count m,
              hm_tombstone_count := 0\<rparr>))"

section \<open>Finding an entry\<close>

definition memeq :: "string \<Rightarrow> string \<Rightarrow> nat \<Rightarrow> bool" where
  "memeq a b n \<longleftrightarrow> take n a = take n b"

text \<open>The condition under which \<^verbatim>\<open>find_entry\<close> returns the bucket it looks at.\<close>

definition entry_found :: "string \<Rightarrow> nat \<Rightarrow> 32 word \<Rightarrow> bucket \<Rightarrow> bool" where
  "entry_found key ksize hash entry \<longleftrightarrow>
     (let null_key = (b_key entry = None);
          null_value = (b_value entry = 0)
      in (null_key \<and> null_value) \<or>
         (\<not> null_key \<and> b_ksize entry = ksize \<and> b_hash entry = hash \<and>
          memeq (the (b_key entry)) key ksize))"

definition find_entry :: "hashmap \<Rightarrow> string \<Rightarrow> nat \<Rightarrow> 32 word \<Rightarrow> nat option" where
  "find_entry m key ksize hash =
     linear_probe (\<lambda>i. entry_found key ksize hash (hm_buckets m ! i)) (hm_capacity m)
       (unat hash mod hm_capacity m)"

section \<open>The operations\<close>

text \<open>
  \<^verbatim>\<open>count + 1 > 0.75f * capacity\<close>: the product is exact in single precision for every capacity
  the map can have (20 times a power of two).
\<close>

definition too_full :: "hashmap \<Rightarrow> bool" where
  "too_full m \<longleftrightarrow> 4 * (hm_count m + 1) > 3 * int (hm_capacity m)"

definition make_room :: "hashmap \<Rightarrow> hashmap option" where
  "make_room m = (if too_full m then hashmap_resize m else Some m)"

text \<open>
  Link a bucket at the end of the list and fill in its key; \<^verbatim>\<open>m->last->next = entry\<close> comes first
  and \<^verbatim>\<open>entry->next = NULL\<close> afterwards, as in the source.
\<close>

definition append_entry :: "hashmap \<Rightarrow> nat \<Rightarrow> string \<Rightarrow> nat \<Rightarrow> 32 word \<Rightarrow> hashmap" where
  "append_entry m i key ksize hash =
     (let m = set_last_next m (Some i);
          m = m\<lparr>hm_last := Some i\<rparr>;
          m = set_bucket m i ((hm_buckets m ! i)\<lparr>b_next := None\<rparr>);
          m = m\<lparr>hm_count := hm_count m + 1\<rparr>
      in set_bucket m i ((hm_buckets m ! i)\<lparr>b_key := Some key, b_ksize := ksize, b_hash := hash\<rparr>))"

definition set_entry_value :: "hashmap \<Rightarrow> nat \<Rightarrow> 64 word \<Rightarrow> hashmap" where
  "set_entry_value m i val = set_bucket m i ((hm_buckets m ! i)\<lparr>b_value := val\<rparr>)"

definition hashmap_set :: "hashmap \<Rightarrow> string \<Rightarrow> nat \<Rightarrow> 64 word \<Rightarrow> hashmap option" where
  "hashmap_set m key ksize val =
     do {
       m \<leftarrow> make_room m;
       let hash = hash_data key ksize;
       i \<leftarrow> find_entry m key ksize hash;
       let m = (if b_key (hm_buckets m ! i) = None then append_entry m i key ksize hash else m);
       Some (set_entry_value m i val)
     }"

text \<open>Returns whether the entry existed, the value left in \<^verbatim>\<open>*out_in\<close>, and the map.\<close>

definition hashmap_get_set ::
  "hashmap \<Rightarrow> string \<Rightarrow> nat \<Rightarrow> 64 word \<Rightarrow> (bool \<times> 64 word \<times> hashmap) option" where
  "hashmap_get_set m key ksize out_in =
     do {
       m \<leftarrow> make_room m;
       let hash = hash_data key ksize;
       i \<leftarrow> find_entry m key ksize hash;
       if b_key (hm_buckets m ! i) = None
       then Some (False, out_in, set_entry_value (append_entry m i key ksize hash) i out_in)
       else Some (True, b_value (hm_buckets m ! i), m)
     }"

text \<open>
  The callback of \<^verbatim>\<open>hashmap_set_free\<close> and \<^verbatim>\<open>hashmap_remove_free\<close> sees key, key size and value of the
  old entry and changes the user's data only.
\<close>

definition hashmap_set_free ::
  "hashmap \<Rightarrow> string \<Rightarrow> nat \<Rightarrow> 64 word \<Rightarrow> (string \<Rightarrow> nat \<Rightarrow> 64 word \<Rightarrow> 'u \<Rightarrow> 'u) \<Rightarrow> 'u \<Rightarrow>
   (hashmap \<times> 'u) option" where
  "hashmap_set_free m key ksize val c usr =
     do {
       m \<leftarrow> make_room m;
       let hash = hash_data key ksize;
       i \<leftarrow> find_entry m key ksize hash;
       let entry = hm_buckets m ! i;
       (case b_key entry of
          None \<Rightarrow> Some (set_entry_value (append_entry m i key ksize hash) i val, usr)
        | Some old \<Rightarrow>
            Some (set_bucket m i (entry\<lparr>b_key := Some key, b_value := val\<rparr>),
                  c old ksize (b_value entry) usr))
     }"

text \<open>Returns whether the key was found, and \<^verbatim>\<open>*out_val\<close>.\<close>

definition hashmap_get :: "hashmap \<Rightarrow> string \<Rightarrow> nat \<Rightarrow> (bool \<times> 64 word) option" where
  "hashmap_get m key ksize =
     do {
       let hash = hash_data key ksize;
       i \<leftarrow> find_entry m key ksize hash;
       Some (b_key (hm_buckets m ! i) \<noteq> None, b_value (hm_buckets m ! i))
     }"

definition make_tombstone :: "hashmap \<Rightarrow> nat \<Rightarrow> hashmap" where
  "make_tombstone m i =
     (set_bucket m i ((hm_buckets m ! i)\<lparr>b_key := None, b_value := 0xDEAD\<rparr>))
       \<lparr>hm_tombstone_count := hm_tombstone_count m + 1\<rparr>"

definition hashmap_remove :: "hashmap \<Rightarrow> string \<Rightarrow> nat \<Rightarrow> hashmap option" where
  "hashmap_remove m key ksize =
     do {
       let hash = hash_data key ksize;
       i \<leftarrow> find_entry m key ksize hash;
       Some (if b_key (hm_buckets m ! i) \<noteq> None then make_tombstone m i else m)
     }"

definition hashmap_remove_free ::
  "hashmap \<Rightarrow> string \<Rightarrow> nat \<Rightarrow> (string \<Rightarrow> nat \<Rightarrow> 64 word \<Rightarrow> 'u \<Rightarrow> 'u) \<Rightarrow> 'u \<Rightarrow>
   (hashmap \<times> 'u) option" where
  "hashmap_remove_free m key ksize c usr =
     do {
       let hash = hash_data key ksize;
       i \<leftarrow> find_entry m key ksize hash;
       let entry = hm_buckets m ! i;
       Some (case b_key entry of
               None \<Rightarrow> (m, usr)
             | Some old \<Rightarrow> (make_tombstone m i, c old (b_ksize entry) (b_value entry) usr))
     }"

definition hashmap_size :: "hashmap \<Rightarrow> int" where
  "hashmap_size m = hm_count m - hm_tombstone_count m"

text \<open>
  The walk along the list. The callback may change the map, so it takes and returns it; the
  \<^verbatim>\<open>next\<close> pointer is read after the callback has run.
\<close>

partial_function (option) iterate_from ::
  "(string \<Rightarrow> nat \<Rightarrow> 64 word \<Rightarrow> hashmap \<times> 'u \<Rightarrow> hashmap \<times> 'u) \<Rightarrow> nat option \<Rightarrow>
   hashmap \<times> 'u \<Rightarrow> (hashmap \<times> 'u) option" where
  "iterate_from c current s =
     (case current of
        None \<Rightarrow> Some s
      | Some i \<Rightarrow>
          (let entry = hm_buckets (fst s) ! i;
               s = (case b_key entry of
                      None \<Rightarrow> s
                    | Some key \<Rightarrow> c key (b_ksize entry) (b_value entry) s)
           in iterate_from c (b_next (hm_buckets (fst s) ! i)) s))"

declare iterate_from.simps [code]

definition hashmap_iterate ::
  "(string \<Rightarrow> nat \<Rightarrow> 64 word \<Rightarrow> hashmap \<times> 'u \<Rightarrow> hashmap \<times> 'u) \<Rightarrow> hashmap \<Rightarrow> 'u \<Rightarrow>
   (hashmap \<times> 'u) option" where
  "hashmap_iterate c m usr = iterate_from c (hm_first m) (m, usr)"

end
