(* ===== verification/Hashmap_Refine.thy ===== *)
theory Hashmap_Refine
  imports Hashmap
begin

text \<open>
  What the hash map promises: its content is a list of entries in insertion order, each with
  the key bytes, and the operations act on that list. The theory has the representation
  invariant, the proof that every operation keeps it, and the functional refinement of each
  operation; in particular no operation of a well-formed map probes for ever.
\<close>

section \<open>The abstract view\<close>

text \<open>An entry is the key buffer, the key size and the value; the key proper is a prefix.\<close>

type_synonym entry = "string \<times> nat \<times> 64 word"

fun e_key :: "entry \<Rightarrow> string" where
  "e_key (k, n, v) = take n k"

fun e_value :: "entry \<Rightarrow> 64 word" where
  "e_value (k, n, v) = v"

definition ents_get :: "entry list \<Rightarrow> string \<Rightarrow> 64 word option" where
  "ents_get es k = map_option e_value (find (\<lambda>e. e_key e = k) es)"

definition ents_set :: "string \<Rightarrow> nat \<Rightarrow> 64 word \<Rightarrow> entry list \<Rightarrow> entry list" where
  "ents_set key n v es =
     (if take n key \<in> e_key ` set es
      then map (\<lambda>e. if e_key e = take n key then (fst e, fst (snd e), v) else e) es
      else es @ [(key, n, v)])"

definition ents_remove :: "string \<Rightarrow> entry list \<Rightarrow> entry list" where
  "ents_remove k es = filter (\<lambda>e. e_key e \<noteq> k) es"

section \<open>Representation\<close>

primrec chain :: "bucket list \<Rightarrow> nat option \<Rightarrow> nat list \<Rightarrow> bool" where
  "chain bs p [] \<longleftrightarrow> p = None"
| "chain bs p (i # is) \<longleftrightarrow> p = Some i \<and> i < length bs \<and> chain bs (b_next (bs ! i)) is"

definition used :: "bucket \<Rightarrow> bool" where
  "used b \<longleftrightarrow> b_key b \<noteq> None \<or> b_value b \<noteq> 0"

definition live :: "bucket \<Rightarrow> bool" where
  "live b \<longleftrightarrow> b_key b \<noteq> None"

definition bucket_key :: "bucket \<Rightarrow> string" where
  "bucket_key b = take (b_ksize b) (the (b_key b))"

definition entry_of :: "bucket \<Rightarrow> entry" where
  "entry_of b = (the (b_key b), b_ksize b, b_value b)"

definition entries_at :: "bucket list \<Rightarrow> nat list \<Rightarrow> entry list" where
  "entries_at bs xs = map (\<lambda>i. entry_of (bs ! i)) (filter (\<lambda>i. live (bs ! i)) xs)"

text \<open>
  Bucket \<open>r\<close> is found from the start \<open>h\<close> by walking over buckets that all satisfy \<open>Q\<close>.
\<close>

definition probe_path :: "(nat \<Rightarrow> bool) \<Rightarrow> nat \<Rightarrow> nat \<Rightarrow> nat \<Rightarrow> bool" where
  "probe_path Q cap h r \<longleftrightarrow> (\<exists>j<cap. r = (h + j) mod cap \<and> (\<forall>k<j. Q ((h + k) mod cap)))"

definition live_ok :: "bucket list \<Rightarrow> nat \<Rightarrow> nat \<Rightarrow> bool" where
  "live_ok bs cap i \<longleftrightarrow>
     b_ksize (bs ! i) \<le> length (the (b_key (bs ! i))) \<and>
     b_hash (bs ! i) = hash_data (the (b_key (bs ! i))) (b_ksize (bs ! i)) \<and>
     probe_path (\<lambda>j. used (bs ! j)) cap (unat (b_hash (bs ! i)) mod cap) i"

text \<open>The structure of a map whose list visits the buckets \<open>xs\<close>, without the counters.\<close>

definition hm_shape :: "hashmap \<Rightarrow> nat list \<Rightarrow> bool" where
  "hm_shape m xs \<longleftrightarrow>
     20 \<le> hm_capacity m \<and> length (hm_buckets m) = hm_capacity m \<and>
     chain (hm_buckets m) (hm_first m) xs \<and> distinct xs \<and>
     hm_last m = (if xs = [] then None else Some (last xs)) \<and>
     (\<forall>i<hm_capacity m. used (hm_buckets m ! i) \<longleftrightarrow> i \<in> set xs) \<and>
     (\<forall>i\<in>set xs. live (hm_buckets m ! i) \<longrightarrow> live_ok (hm_buckets m) (hm_capacity m) i) \<and>
     distinct (map e_key (entries_at (hm_buckets m) xs))"

definition hm_rep :: "hashmap \<Rightarrow> nat list \<Rightarrow> bool" where
  "hm_rep m xs \<longleftrightarrow> hm_shape m xs \<and>
     hm_count m = int (length xs) \<and>
     hm_tombstone_count m = int (length (filter (\<lambda>i. \<not> live (hm_buckets m ! i)) xs)) \<and>
     4 * length xs \<le> 3 * hm_capacity m"

text \<open>The list is computed by following the pointers, at most one step per bucket.\<close>

fun follow :: "nat \<Rightarrow> bucket list \<Rightarrow> nat option \<Rightarrow> nat list" where
  "follow 0 bs p = []"
| "follow (Suc n) bs None = []"
| "follow (Suc n) bs (Some i) = i # follow n bs (b_next (bs ! i))"

definition hm_list :: "hashmap \<Rightarrow> nat list" where
  "hm_list m = follow (hm_capacity m) (hm_buckets m) (hm_first m)"

definition hm_inv :: "hashmap \<Rightarrow> bool" where
  "hm_inv m \<longleftrightarrow> hm_rep m (hm_list m)"

definition hm_entries :: "hashmap \<Rightarrow> entry list" where
  "hm_entries m = entries_at (hm_buckets m) (hm_list m)"

section \<open>Chains\<close>

lemma chain_bound: "chain bs p xs \<Longrightarrow> i \<in> set xs \<Longrightarrow> i < length bs"
  by (induction xs arbitrary: p) auto

lemma chain_update_other [simp]:
  "i \<notin> set xs \<Longrightarrow> chain (bs[i := b]) p xs \<longleftrightarrow> chain bs p xs"
  by (induction xs arbitrary: p) auto

lemma chain_cong_next:
  assumes "map b_next bs = map b_next cs"
  shows "chain bs p xs \<longleftrightarrow> chain cs p xs"
proof -
  have len: "length bs = length cs" using assms by (rule map_eq_imp_length_eq)
  have nxt: "i < length cs \<Longrightarrow> b_next (bs ! i) = b_next (cs ! i)" for i
    using assms len by (metis nth_map)
  show ?thesis
  proof (induction xs arbitrary: p)
    case (Cons i xs)
    show ?case unfolding chain.simps Cons.IH len using nxt [of i] by (cases "i < length cs") simp_all
  qed simp
qed

lemma chain_update_same_next:
  "b_next b = b_next (bs ! i) \<Longrightarrow> chain (bs[i := b]) p xs \<longleftrightarrow> chain bs p xs"
  by (rule chain_cong_next) (cases "i < length bs", simp_all add: map_update list_update_same_conv list_update_beyond)

lemma chain_snoc:
  assumes "chain bs p xs" and "xs \<noteq> []" and "distinct xs" and "r \<notin> set xs" and "r < length bs"
    and "b_next b = None"
  shows "chain (bs[last xs := (bs ! last xs)\<lparr>b_next := Some r\<rparr>, r := b]) p (xs @ [r])"
  using assms(1-4)
proof (induction xs arbitrary: p)
  case Nil
  then show ?case by simp
next
  case (Cons i xs)
  show ?case
  proof (cases "xs = []")
    case True
    with Cons.prems assms(5,6) show ?thesis by (auto simp: nth_list_update)
  next
    case False
    then have "last xs \<in> set xs" by simp
    with Cons.prems have "i \<noteq> last xs" "r \<noteq> i" by auto
    with Cons False show ?thesis by (simp add: nth_list_update)
  qed
qed

lemma follow_chain: "chain bs p xs \<Longrightarrow> length xs \<le> n \<Longrightarrow> follow n bs p = xs"
proof (induction xs arbitrary: p n)
  case Nil
  then show ?case by (cases n) auto
next
  case (Cons i xs)
  then show ?case by (cases n) auto
qed

section \<open>Probing\<close>

lemma probe_path_mono:
  "probe_path Q cap h r \<Longrightarrow> (\<And>i. i < cap \<Longrightarrow> Q i \<Longrightarrow> Q' i) \<Longrightarrow> probe_path Q' cap h r"
  unfolding probe_path_def by (metis gr_implies_not0 mod_less_divisor not_gr_zero)

lemma probe_path_bound: "probe_path Q cap h r \<Longrightarrow> r < cap"
  unfolding probe_path_def by (metis gr_implies_not0 mod_less_divisor not_gr_zero)

lemma linear_probe_hit:
  "i < cap \<Longrightarrow> (\<And>k. k < j \<Longrightarrow> \<not> stop ((i + k) mod cap)) \<Longrightarrow> stop ((i + j) mod cap) \<Longrightarrow>
   linear_probe stop cap i = Some ((i + j) mod cap)"
proof (induction j arbitrary: i)
  case 0
  then show ?case by (subst linear_probe.simps) simp
next
  case (Suc j)
  let ?i = "(i + 1) mod cap"
  have shift: "(?i + k) mod cap = (i + Suc k) mod cap" for k
    by (simp add: mod_simps)
  have "linear_probe stop cap ?i = Some ((?i + j) mod cap)"
  proof (rule Suc.IH)
    show "?i < cap" using Suc.prems(1) by simp
    show "\<not> stop ((?i + k) mod cap)" if "k < j" for k
      unfolding shift using Suc.prems(2) [of "Suc k"] that by simp
    show "stop ((?i + j) mod cap)" unfolding shift by (rule Suc.prems(3))
  qed
  moreover have "\<not> stop i" using Suc.prems(1) Suc.prems(2) [of 0] by simp
  ultimately show ?case by (subst linear_probe.simps) (simp only: shift if_False)
qed

lemma linear_probe_total:
  assumes h: "h < cap" and i: "i < cap" "stop i"
  obtains r where "linear_probe stop cap h = Some r" "r < cap" "stop r"
    "probe_path (\<lambda>i. \<not> stop i) cap h r"
proof -
  let ?P = "\<lambda>j. stop ((h + j) mod cap)"
  have "(h + (i + cap - h)) mod cap = i" using h i by simp
  then have ex: "?P ((i + cap - h) mod cap)" using i by (simp add: mod_simps)
  define j where "j = (LEAST j. ?P j)"
  have j: "?P j" "\<And>k. k < j \<Longrightarrow> \<not> ?P k"
    unfolding j_def by (rule LeastI [of ?P, OF ex]) (rule not_less_Least)
  have "j \<le> (i + cap - h) mod cap" unfolding j_def by (rule Least_le [of ?P, OF ex])
  then have "j < cap" using h by (metis le_less_trans mod_less_divisor not_less_zero gr0I)
  with j linear_probe_hit [of h cap j stop, OF h j(2,1)] show thesis
    by (intro that [of "(h + j) mod cap"]) (use h in \<open>auto simp: probe_path_def\<close>)
qed

lemma linear_probe_unique:
  assumes path: "probe_path (\<lambda>i. \<not> stop i) cap h r" and "stop r" and h: "h < cap"
  shows "linear_probe stop cap h = Some r"
proof -
  from path obtain j where "r = (h + j) mod cap" "\<And>k. k < j \<Longrightarrow> \<not> stop ((h + k) mod cap)"
    unfolding probe_path_def by blast
  with linear_probe_hit [of h cap j stop] assms show ?thesis by simp
qed

text \<open>Two walks from the same start: the one that stops earlier lies on the other.\<close>

lemma probe_path_earlier:
  assumes "probe_path Q cap h r" and "probe_path R cap h i" and "\<not> R r" and "\<not> Q i"
  shows "r = i"
proof -
  from assms obtain j where j: "r = (h + j) mod cap" "\<And>k. k < j \<Longrightarrow> Q ((h + k) mod cap)"
    unfolding probe_path_def by blast
  from assms obtain l where l: "i = (h + l) mod cap" "\<And>k. k < l \<Longrightarrow> R ((h + k) mod cap)"
    unfolding probe_path_def by blast
  have "\<not> j < l" using l(2) [of j] j(1) assms(3) by blast
  moreover have "\<not> l < j" using j(2) [of l] l(1) assms(4) by blast
  ultimately show ?thesis using j(1) l(1) by simp
qed

section \<open>Keys of a well-formed map\<close>

lemma e_key_entry_of [simp]: "e_key (entry_of b) = bucket_key b"
  by (simp add: entry_of_def bucket_key_def)

lemma live_used: "live b \<Longrightarrow> used b"
  by (simp add: live_def used_def)

lemma entry_found_iff:
  assumes "live b \<Longrightarrow> b_ksize b \<le> length (the (b_key b))"
    and "live b \<Longrightarrow> b_hash b = hash_data (the (b_key b)) (b_ksize b)"
    and n: "n \<le> length key"
  shows "entry_found key n (hash_data key n) b \<longleftrightarrow>
    \<not> used b \<or> (live b \<and> bucket_key b = take n key)"
proof (cases "live b")
  case False
  then show ?thesis by (auto simp: entry_found_def used_def live_def)
next
  case True
  define k where "k = the (b_key b)"
  have len: "b_ksize b \<le> length k" and hash: "b_hash b = hash_data k (b_ksize b)"
    using assms True by (auto simp: k_def)
  have "take (b_ksize b) k = take n key \<Longrightarrow> b_ksize b = n"
    using len n by (metis length_take min.absorb2)
  moreover have "take n k = take n key \<Longrightarrow> hash_data k n = hash_data key n"
    by (metis hash_data_take)
  ultimately show ?thesis
    using True hash by (auto simp: entry_found_def memeq_def bucket_key_def used_def live_def k_def)
qed

lemma shape_bound: "hm_shape m xs \<Longrightarrow> i \<in> set xs \<Longrightarrow> i < hm_capacity m"
  unfolding hm_shape_def by (metis chain_bound)

lemma shape_length: "hm_shape m xs \<Longrightarrow> length xs \<le> hm_capacity m"
proof -
  assume s: "hm_shape m xs"
  then have "set xs \<subseteq> {..<hm_capacity m}" using shape_bound by blast
  then have "card (set xs) \<le> hm_capacity m" by (metis card_lessThan card_mono finite_lessThan)
  with s show ?thesis by (simp add: hm_shape_def distinct_card)
qed

lemma shape_free:
  assumes "hm_shape m xs" and "length xs < hm_capacity m"
  obtains i where "i < hm_capacity m" "i \<notin> set xs"
proof -
  have "\<not> {..<hm_capacity m} \<subseteq> set xs"
  proof
    assume "{..<hm_capacity m} \<subseteq> set xs"
    then have "hm_capacity m \<le> card (set xs)" by (metis List.finite_set card_lessThan card_mono)
    also have "\<dots> \<le> length xs" by (rule card_length)
    finally show False using assms(2) by simp
  qed
  then show thesis using that by auto
qed

lemma entries_at_keys_inj:
  assumes "distinct (map e_key (entries_at bs xs))" and "distinct xs"
    and "i \<in> set xs" "j \<in> set xs" "live (bs ! i)" "live (bs ! j)"
    and "bucket_key (bs ! i) = bucket_key (bs ! j)"
  shows "i = j"
proof -
  have "inj_on (\<lambda>i. bucket_key (bs ! i)) (set (filter (\<lambda>i. live (bs ! i)) xs))"
    using assms(1) by (simp add: entries_at_def comp_def distinct_map)
  with assms show ?thesis by (auto dest: inj_onD)
qed

text \<open>
  The heart of the map: in a well-formed map that is not full, looking for a key ends, either
  at the live bucket of the key or, when there is none, at an empty bucket.
\<close>

lemma find_entry_cases:
  assumes s: "hm_shape m xs" and room: "length xs < hm_capacity m" and n: "n \<le> length key"
  obtains (present) i where "find_entry m key n (hash_data key n) = Some i" "i \<in> set xs"
      "live (hm_buckets m ! i)" "bucket_key (hm_buckets m ! i) = take n key"
  | (absent) i where "find_entry m key n (hash_data key n) = Some i" "i < hm_capacity m"
      "i \<notin> set xs" "probe_path (\<lambda>j. used (hm_buckets m ! j)) (hm_capacity m)
         (unat (hash_data key n) mod hm_capacity m) i"
      "\<forall>j\<in>set xs. live (hm_buckets m ! j) \<longrightarrow> bucket_key (hm_buckets m ! j) \<noteq> take n key"
proof -
  define stop where "stop i = entry_found key n (hash_data key n) (hm_buckets m ! i)" for i
  define h where "h = unat (hash_data key n) mod hm_capacity m"
  have fe: "find_entry m key n (hash_data key n) = linear_probe stop (hm_capacity m) h"
    by (simp add: find_entry_def stop_def [abs_def] h_def)
  have stop: "stop i \<longleftrightarrow> i \<notin> set xs \<or>
      (live (hm_buckets m ! i) \<and> bucket_key (hm_buckets m ! i) = take n key)" if "i < hm_capacity m" for i
  proof -
    have u: "used (hm_buckets m ! i) \<longleftrightarrow> i \<in> set xs" using s that by (simp add: hm_shape_def)
    have "live (hm_buckets m ! i) \<Longrightarrow> live_ok (hm_buckets m) (hm_capacity m) i"
      using s u live_used by (auto simp: hm_shape_def)
    then show ?thesis
      unfolding stop_def using u n by (subst entry_found_iff) (auto simp: live_ok_def)
  qed
  have h: "h < hm_capacity m" using s by (simp add: h_def hm_shape_def)
  obtain e where e: "e < hm_capacity m" "e \<notin> set xs" using shape_free [OF s room] by blast
  with stop have "stop e" by simp
  then obtain r where r: "linear_probe stop (hm_capacity m) h = Some r" "r < hm_capacity m"
      "stop r" "probe_path (\<lambda>i. \<not> stop i) (hm_capacity m) h r"
    using linear_probe_total [OF h e(1)] by blast
  have upath: "probe_path (\<lambda>j. used (hm_buckets m ! j)) (hm_capacity m) h r"
    by (rule probe_path_mono [OF r(4)]) (use stop s in \<open>auto simp: hm_shape_def\<close>)
  show thesis
  proof (cases "r \<in> set xs")
    case True
    with r stop fe show ?thesis by (intro present [of r]) auto
  next
    case False
    have "bucket_key (hm_buckets m ! j) \<noteq> take n key" if j: "j \<in> set xs" "live (hm_buckets m ! j)" for j
    proof
      assume eq: "bucket_key (hm_buckets m ! j) = take n key"
      have ok: "live_ok (hm_buckets m) (hm_capacity m) j" using s j by (simp add: hm_shape_def)
      have hj: "b_hash (hm_buckets m ! j) = hash_data key n"
        using ok eq n unfolding live_ok_def bucket_key_def
        by (metis hash_data_take length_take min.absorb2)
      have "probe_path (\<lambda>j. used (hm_buckets m ! j)) (hm_capacity m) h j"
        using ok unfolding live_ok_def hj h_def by blast
      moreover have "stop j" using stop [OF shape_bound [OF s j(1)]] j eq by simp
      moreover have "\<not> used (hm_buckets m ! r)" using s False r(2) by (simp add: hm_shape_def)
      ultimately have "r = j" using probe_path_earlier [OF r(4)] by blast
      with False j(1) show False by simp
    qed
    with r fe upath False show ?thesis by (intro absent [of r]) (auto simp: h_def)
  qed
qed

section \<open>Linking a new bucket at the end of the list\<close>

lemma next_update_data [simp]:
  "used (b\<lparr>b_next := p\<rparr>) = used b"
  "live (b\<lparr>b_next := p\<rparr>) = live b"
  "bucket_key (b\<lparr>b_next := p\<rparr>) = bucket_key b"
  "entry_of (b\<lparr>b_next := p\<rparr>) = entry_of b"
  by (simp_all add: used_def live_def bucket_key_def entry_of_def)

lemma entries_at_append [simp]:
  "entries_at bs (xs @ ys) = entries_at bs xs @ entries_at bs ys"
  by (simp add: entries_at_def)

lemma entries_at_cong:
  "(\<And>i. i \<in> set xs \<Longrightarrow> live (bs ! i) = live (cs ! i)) \<Longrightarrow>
   (\<And>i. i \<in> set xs \<Longrightarrow> live (cs ! i) \<Longrightarrow> entry_of (bs ! i) = entry_of (cs ! i)) \<Longrightarrow>
   entries_at bs xs = entries_at cs xs"
  unfolding entries_at_def by (auto cong: filter_cong)

lemma set_entries_at:
  "set (entries_at bs xs) = {entry_of (bs ! i) | i. i \<in> set xs \<and> live (bs ! i)}"
  by (auto simp: entries_at_def)

definition link_bucket :: "hashmap \<Rightarrow> nat \<Rightarrow> bucket \<Rightarrow> hashmap" where
  "link_bucket m r b = (set_bucket (set_last_next m (Some r)) r b)\<lparr>hm_last := Some r\<rparr>"

lemma link_bucket_fields [simp]:
  "hm_capacity (link_bucket m r b) = hm_capacity m"
  "hm_count (link_bucket m r b) = hm_count m"
  "hm_tombstone_count (link_bucket m r b) = hm_tombstone_count m"
  "hm_last (link_bucket m r b) = Some r"
  "length (hm_buckets (link_bucket m r b)) = length (hm_buckets m)"
  by (simp_all add: link_bucket_def set_bucket_def set_last_next_def split: option.split)

lemma link_bucket_nth:
  assumes "hm_shape m xs" and "r < hm_capacity m" and "r \<notin> set xs" and "i < hm_capacity m"
  shows "hm_buckets (link_bucket m r b) ! i =
    (if i = r then b
     else if xs \<noteq> [] \<and> i = last xs then (hm_buckets m ! i)\<lparr>b_next := Some r\<rparr>
     else hm_buckets m ! i)"
  using assms
  by (auto simp: link_bucket_def set_bucket_def set_last_next_def hm_shape_def nth_list_update)

lemma link_bucket_chain:
  assumes s: "hm_shape m xs" and r: "r < hm_capacity m" "r \<notin> set xs" and "b_next b = None"
  shows "chain (hm_buckets (link_bucket m r b)) (hm_first (link_bucket m r b)) (xs @ [r])"
proof (cases "xs = []")
  case True
  with assms show ?thesis
    by (auto simp: link_bucket_def set_bucket_def set_last_next_def hm_shape_def)
next
  case False
  with assms chain_snoc [of "hm_buckets m" "hm_first m" xs r b] show ?thesis
    by (auto simp: link_bucket_def set_bucket_def set_last_next_def hm_shape_def)
qed

lemma link_bucket_entries:
  assumes s: "hm_shape m xs" and r: "r < hm_capacity m" "r \<notin> set xs" and b: "live b"
  shows "entries_at (hm_buckets (link_bucket m r b)) (xs @ [r]) =
    entries_at (hm_buckets m) xs @ [entry_of b]"
proof -
  have "entries_at (hm_buckets (link_bucket m r b)) xs = entries_at (hm_buckets m) xs"
    using r by (intro entries_at_cong) (auto simp: link_bucket_nth [OF s r] shape_bound [OF s])
  with b r show ?thesis by (simp add: entries_at_def link_bucket_nth [OF s r])
qed

lemma shape_link_bucket:
  assumes s: "hm_shape m xs" and r: "r < hm_capacity m" "r \<notin> set xs"
    and b: "live b" "b_next b = None" "b_ksize b \<le> length (the (b_key b))"
      "b_hash b = hash_data (the (b_key b)) (b_ksize b)"
    and path: "probe_path (\<lambda>j. used (hm_buckets m ! j)) (hm_capacity m)
         (unat (b_hash b) mod hm_capacity m) r"
    and new: "\<forall>j\<in>set xs. live (hm_buckets m ! j) \<longrightarrow> bucket_key (hm_buckets m ! j) \<noteq> bucket_key b"
  shows "hm_shape (link_bucket m r b) (xs @ [r])"
proof -
  note nth = link_bucket_nth [OF s r]
  let ?bs = "hm_buckets (link_bucket m r b)"
  have used: "used (?bs ! i)" if "used (hm_buckets m ! i)" "i < hm_capacity m" for i
    using that b(1) live_used by (auto simp: nth)
  have ok: "live_ok ?bs (hm_capacity m) i" if i: "i \<in> set (xs @ [r])" "live (?bs ! i)" for i
  proof (cases "i = r")
    case True
    with r b path show ?thesis
      by (auto simp: live_ok_def nth intro: probe_path_mono used)
  next
    case False
    with i have "i \<in> set xs" by simp
    with s i False have ok: "live_ok (hm_buckets m) (hm_capacity m) i"
      by (auto simp: hm_shape_def nth shape_bound [OF s] split: if_splits)
    then have "probe_path (\<lambda>j. used (?bs ! j)) (hm_capacity m)
        (unat (b_hash (hm_buckets m ! i)) mod hm_capacity m) i"
      unfolding live_ok_def by (blast intro: probe_path_mono used)
    with ok False show ?thesis
      by (auto simp: live_ok_def nth shape_bound [OF s \<open>i \<in> set xs\<close>])
  qed
  have "distinct (map e_key (entries_at ?bs (xs @ [r])))"
    unfolding link_bucket_entries [OF s r b(1)]
    using s new by (auto simp: hm_shape_def set_entries_at)
  moreover have "used (?bs ! i) \<longleftrightarrow> i \<in> set (xs @ [r])" if "i < hm_capacity m" for i
    using s that b(1) live_used by (auto simp: nth hm_shape_def)
  ultimately show ?thesis
    using s r ok link_bucket_chain [OF s r b(2)] by (simp add: hm_shape_def)
qed

end
