(* ===== verification/Hashmap_Resize.thy ===== *)
theory Hashmap_Resize
  imports Hashmap_Refine
begin

text \<open>
  Correctness of \<^verbatim>\<open>hashmap_resize\<close>: the loop moves the live buckets of the old array, in list
  order, into a fresh array twice as large and drops the tombstones. During the loop the last
  new bucket's \<^verbatim>\<open>next\<close> field still points into the old array; cutting that pointer leaves a
  well-formed map of the entries moved so far.
\<close>

section \<open>The pointer \<open>m->last->next\<close>\<close>

lemma set_last_next_fields [simp]:
  "hm_capacity (set_last_next m p) = hm_capacity m"
  "hm_count (set_last_next m p) = hm_count m"
  "hm_tombstone_count (set_last_next m p) = hm_tombstone_count m"
  "hm_last (set_last_next m p) = hm_last m"
  "length (hm_buckets (set_last_next m p)) = length (hm_buckets m)"
  by (simp_all add: set_last_next_def set_bucket_def split: option.split)

lemma set_last_next_twice [simp]: "set_last_next (set_last_next m p) q = set_last_next m q"
  by (cases "hm_last m")
     (simp_all add: set_last_next_def set_bucket_def nth_list_update_if list_update_beyond)

lemma set_last_next_same: "set_last_next m (last_next m) = m"
  by (auto simp: set_last_next_def last_next_def set_bucket_def split: option.split)

lemma last_next_set_last_next:
  "(\<And>i. hm_last m = Some i \<Longrightarrow> i < length (hm_buckets m)) \<Longrightarrow> last_next (set_last_next m p) = p"
  by (auto simp: set_last_next_def last_next_def set_bucket_def split: option.split)

lemma set_last_next_data:
  "live (hm_buckets (set_last_next m p) ! i) = live (hm_buckets m ! i)"
  "used (hm_buckets (set_last_next m p) ! i) = used (hm_buckets m ! i)"
  "b_key (hm_buckets (set_last_next m p) ! i) = b_key (hm_buckets m ! i)"
  "entry_of (hm_buckets (set_last_next m p) ! i) = entry_of (hm_buckets m ! i)"
  by (cases "hm_last m"; simp add: set_last_next_def set_bucket_def nth_list_update_if)+

section \<open>One round of the loop\<close>

text \<open>
  The state of the loop: \<open>ys\<close> are the new buckets already linked, \<open>qs\<close> the old ones still to be
  visited.
\<close>

definition resize_rel :: "bucket list \<Rightarrow> hashmap \<Rightarrow> nat list \<Rightarrow> nat list \<Rightarrow> bool" where
  "resize_rel old m ys qs \<longleftrightarrow>
     hm_shape (set_last_next m None) ys \<and>
     (\<forall>i\<in>set ys. live (hm_buckets m ! i)) \<and>
     chain old (last_next m) qs"

text \<open>What a live bucket of the old array must satisfy to be moved.\<close>

definition key_ok :: "bucket \<Rightarrow> bool" where
  "key_ok b \<longleftrightarrow> b_ksize b \<le> length (the (b_key b)) \<and>
     b_hash b = hash_data (the (b_key b)) (b_ksize b)"

lemma resize_step_tombstone:
  assumes "resize_rel old m ys (c # qs)" and "\<not> live (old ! c)"
  shows "resize_step old m = Some (set_last_next m (b_next (old ! c)))"
    and "resize_rel old (set_last_next m (b_next (old ! c))) ys qs"
proof -
  from assms have ln: "last_next m = Some c" and ch: "chain old (b_next (old ! c)) qs"
    and sh: "hm_shape (set_last_next m None) ys"
    by (auto simp: resize_rel_def)
  show "resize_step old m = Some (set_last_next m (b_next (old ! c)))"
    using assms(2) by (simp add: resize_step_def ln live_def Let_def)
  have "i < length (hm_buckets m)" if "hm_last m = Some i" for i
    using sh that shape_bound [OF sh, of i] by (auto simp: hm_shape_def split: if_splits)
  then have "last_next (set_last_next m (b_next (old ! c))) = b_next (old ! c)"
    by (rule last_next_set_last_next)
  with assms(1) ch show "resize_rel old (set_last_next m (b_next (old ! c))) ys qs"
    by (simp add: resize_rel_def set_last_next_data)
qed

lemma relink_eq:
  assumes "\<And>l. hm_last m = Some l \<Longrightarrow> l \<noteq> r" and "r < length (hm_buckets m)"
  shows "set_last_next (set_last_next (set_bucket m r b) (Some r)\<lparr>hm_last := Some r\<rparr>) None =
    link_bucket (set_last_next m None) r (b\<lparr>b_next := None\<rparr>)"
  using assms
  by (cases "hm_last m")
     (auto simp: set_last_next_def link_bucket_def set_bucket_def nth_list_update_if
        list_update_swap [of r])

text \<open>The new array has no tombstones, so a null key means a free bucket; one is always found.\<close>

lemma resize_slot:
  assumes sh: "hm_shape (set_last_next m None) ys" and lv: "\<forall>i\<in>set ys. live (hm_buckets m ! i)"
    and room: "length ys < hm_capacity m" and h: "h < hm_capacity m"
  obtains r where "linear_probe (\<lambda>i. b_key (hm_buckets m ! i) = None) (hm_capacity m) h = Some r"
    "r < hm_capacity m" "r \<notin> set ys"
    "probe_path (\<lambda>j. used (hm_buckets (set_last_next m None) ! j)) (hm_capacity m) h r"
proof -
  have used: "used (hm_buckets m ! i) \<longleftrightarrow> i \<in> set ys" if "i < hm_capacity m" for i
    using sh that by (simp add: hm_shape_def set_last_next_data)
  have free: "b_key (hm_buckets m ! i) = None \<longleftrightarrow> i \<notin> set ys" if "i < hm_capacity m" for i
    using used [OF that] lv live_used [of "hm_buckets m ! i"] unfolding live_def by blast
  obtain e where "e < hm_capacity m" "e \<notin> set ys"
    using shape_free [OF sh] room by auto
  then obtain r where r: "linear_probe (\<lambda>i. b_key (hm_buckets m ! i) = None) (hm_capacity m) h = Some r"
      "r < hm_capacity m" "r \<notin> set ys"
    and path: "probe_path (\<lambda>i. \<not> b_key (hm_buckets m ! i) = None) (hm_capacity m) h r"
    using linear_probe_total [OF h, of e "\<lambda>i. b_key (hm_buckets m ! i) = None"] free by metis
  have "probe_path (\<lambda>j. used (hm_buckets (set_last_next m None) ! j)) (hm_capacity m) h r"
    by (rule probe_path_mono [OF path]) (simp add: used free set_last_next_data)
  with r show thesis by (rule that)
qed

text \<open>The map after the move of the old bucket \<open>b\<close> to the new bucket \<open>r\<close>.\<close>

definition moved :: "hashmap \<Rightarrow> nat \<Rightarrow> bucket \<Rightarrow> hashmap" where
  "moved m r b = set_last_next (set_bucket m r b) (Some r)\<lparr>hm_last := Some r\<rparr>"

lemma moved_fields [simp]:
  "hm_capacity (moved m r b) = hm_capacity m"
  "hm_count (moved m r b) = hm_count m"
  "hm_tombstone_count (moved m r b) = hm_tombstone_count m"
  by (simp_all add: moved_def set_bucket_def)

lemma moved_rel:
  assumes rel: "resize_rel old m ys (c # qs)" and c: "live (old ! c)" "key_ok (old ! c)"
    and r: "r < hm_capacity m" "r \<notin> set ys"
    and path: "probe_path (\<lambda>j. used (hm_buckets (set_last_next m None) ! j)) (hm_capacity m)
         (unat (b_hash (old ! c)) mod hm_capacity m) r"
    and new: "bucket_key (old ! c) \<notin> set (map e_key (entries_at (hm_buckets m) ys))"
  shows "resize_rel old (moved m r (old ! c)) (ys @ [r]) qs"
    and "entries_at (hm_buckets (moved m r (old ! c))) (ys @ [r]) =
       entries_at (hm_buckets m) ys @ [entry_of (old ! c)]"
proof -
  let ?m0 = "set_last_next m None" and ?m' = "moved m r (old ! c)"
  let ?link = "link_bucket ?m0 r ((old ! c)\<lparr>b_next := None\<rparr>)"
  have sh: "hm_shape ?m0 ys" and lv: "\<forall>i\<in>set ys. live (hm_buckets m ! i)"
    and ch: "chain old (b_next (old ! c)) qs" and len: "length (hm_buckets m) = hm_capacity m"
    using rel by (auto simp: resize_rel_def hm_shape_def)
  have r': "r < hm_capacity ?m0" using r by simp
  have ents0: "entries_at (hm_buckets ?m0) ys = entries_at (hm_buckets m) ys"
    by (rule entries_at_cong) (simp_all add: set_last_next_data)
  have last: "l \<noteq> r" if "hm_last m = Some l" for l
    using sh that r(2) by (auto simp: hm_shape_def split: if_splits)
  then have cut: "set_last_next ?m' None = ?link"
    unfolding moved_def using r len by (intro relink_eq) auto
  have keys: "\<forall>j\<in>set ys. live (hm_buckets ?m0 ! j) \<longrightarrow> bucket_key (hm_buckets ?m0 ! j) \<noteq> bucket_key (old ! c)"
    using new unfolding ents0 [symmetric] by (force simp: set_entries_at)
  have sh': "hm_shape (set_last_next ?m' None) (ys @ [r])"
    unfolding cut using sh r c path keys
    by (intro shape_link_bucket) (auto simp: key_ok_def live_def)
  have "entries_at (hm_buckets ?m') (ys @ [r]) = entries_at (hm_buckets (set_last_next ?m' None)) (ys @ [r])"
    by (rule entries_at_cong) (simp_all add: set_last_next_data)
  then show "entries_at (hm_buckets ?m') (ys @ [r]) = entries_at (hm_buckets m) ys @ [entry_of (old ! c)]"
    unfolding cut using link_bucket_entries [OF sh r' r(2)] c(1) by (simp add: ents0)
  have lv': "live (hm_buckets ?m' ! i)" if "i \<in> set (ys @ [r])" for i
  proof -
    have "i < hm_capacity ?m0" using that r' shape_bound [OF sh] by auto
    then have "live (hm_buckets ?link ! i)"
      using that lv c(1) by (auto simp: link_bucket_nth [OF sh r' r(2)] set_last_next_data)
    then show ?thesis by (simp add: cut [symmetric] set_last_next_data)
  qed
  have "hm_buckets ?m' ! r = old ! c"
    using last r len
    by (cases "hm_last m") (auto simp: moved_def set_last_next_def set_bucket_def nth_list_update_if)
  then have "last_next ?m' = b_next (old ! c)" by (simp add: last_next_def moved_def)
  with sh' lv' ch show "resize_rel old ?m' (ys @ [r]) qs" by (simp add: resize_rel_def)
qed

lemma resize_step_live:
  assumes rel: "resize_rel old m ys (c # qs)" and c: "live (old ! c)" "key_ok (old ! c)"
    and room: "length ys < hm_capacity m"
    and new: "bucket_key (old ! c) \<notin> set (map e_key (entries_at (hm_buckets m) ys))"
  obtains r where "resize_step old m = Some (moved m r (old ! c))"
    "resize_rel old (moved m r (old ! c)) (ys @ [r]) qs"
    "entries_at (hm_buckets (moved m r (old ! c))) (ys @ [r]) =
       entries_at (hm_buckets m) ys @ [entry_of (old ! c)]"
proof -
  let ?h = "unat (b_hash (old ! c)) mod hm_capacity m"
  have sh: "hm_shape (set_last_next m None) ys" and lv: "\<forall>i\<in>set ys. live (hm_buckets m ! i)"
    and ln: "last_next m = Some c"
    using rel by (auto simp: resize_rel_def)
  have "?h < hm_capacity m" using sh by (simp add: hm_shape_def)
  from resize_slot [OF sh lv room this] obtain r where
    r: "linear_probe (\<lambda>i. b_key (hm_buckets m ! i) = None) (hm_capacity m) ?h = Some r"
      "r < hm_capacity m" "r \<notin> set ys"
    and path: "probe_path (\<lambda>j. used (hm_buckets (set_last_next m None) ! j)) (hm_capacity m) ?h r"
    by blast
  have "resize_step old m = Some (moved m r (old ! c))"
    using c(1) r(1) by (auto simp: resize_step_def ln live_def Let_def resize_entry_def moved_def)
  then show thesis by (rule that) (rule moved_rel [OF rel c r(2,3) path new])+
qed

section \<open>The loop and the whole operation\<close>

lemma resize_loop_ok:
  "resize_rel old m ys qs \<Longrightarrow> qs \<noteq> [] \<Longrightarrow> length ys + length qs < hm_capacity m \<Longrightarrow>
   \<forall>c\<in>set qs. live (old ! c) \<longrightarrow> key_ok (old ! c) \<Longrightarrow>
   distinct (map e_key (entries_at (hm_buckets m) ys @ entries_at old qs)) \<Longrightarrow>
   \<exists>m' ys'. resize_loop old m = Some m' \<and> hm_shape m' ys' \<and>
     (\<forall>i\<in>set ys'. live (hm_buckets m' ! i)) \<and>
     entries_at (hm_buckets m') ys' = entries_at (hm_buckets m) ys @ entries_at old qs \<and>
     hm_capacity m' = hm_capacity m \<and> hm_count m' = hm_count m \<and>
     hm_tombstone_count m' = hm_tombstone_count m"
proof (induction qs arbitrary: m ys)
  case Nil
  then show ?case by simp
next
  case (Cons c qs)
  have "\<exists>m1 ys1. resize_step old m = Some m1 \<and> resize_rel old m1 ys1 qs \<and>
      entries_at (hm_buckets m1) ys1 @ entries_at old qs =
        entries_at (hm_buckets m) ys @ entries_at old (c # qs) \<and>
      length ys1 \<le> Suc (length ys) \<and> hm_capacity m1 = hm_capacity m \<and>
      hm_count m1 = hm_count m \<and> hm_tombstone_count m1 = hm_tombstone_count m"
  proof (cases "live (old ! c)")
    case False
    let ?m1 = "set_last_next m (b_next (old ! c))"
    have "entries_at (hm_buckets ?m1) ys = entries_at (hm_buckets m) ys"
      by (rule entries_at_cong) (simp_all add: set_last_next_data)
    with resize_step_tombstone [OF Cons.prems(1) False] False show ?thesis
      by (intro exI [of _ ?m1] exI [of _ ys]) (simp add: entries_at_def)
  next
    case True
    then have "bucket_key (old ! c) \<notin> set (map e_key (entries_at (hm_buckets m) ys))"
      using Cons.prems(5) by (auto simp: entries_at_def)
    with Cons.prems True obtain r where
      "resize_step old m = Some (moved m r (old ! c))"
      "resize_rel old (moved m r (old ! c)) (ys @ [r]) qs"
      "entries_at (hm_buckets (moved m r (old ! c))) (ys @ [r]) =
         entries_at (hm_buckets m) ys @ [entry_of (old ! c)]"
      by (elim resize_step_live) auto
    with True show ?thesis
      by (intro exI [of _ "moved m r (old ! c)"] exI [of _ "ys @ [r]"]) (simp add: entries_at_def)
  qed
  then obtain m1 ys1 where step: "resize_step old m = Some m1" and rel: "resize_rel old m1 ys1 qs"
    and ents: "entries_at (hm_buckets m1) ys1 @ entries_at old qs =
        entries_at (hm_buckets m) ys @ entries_at old (c # qs)"
    and len: "length ys1 \<le> Suc (length ys)" and flds: "hm_capacity m1 = hm_capacity m"
      "hm_count m1 = hm_count m" "hm_tombstone_count m1 = hm_tombstone_count m"
    by blast
  show ?case
  proof (cases "qs = []")
    case True
    with rel have last: "last_next m1 = None" by (simp add: resize_rel_def)
    then have "set_last_next m1 None = m1" by (metis set_last_next_same)
    with rel ents flds step last True show ?thesis
      by (intro exI [of _ m1] exI [of _ ys1])
         (simp add: resize_rel_def resize_loop.simps [of old m] entries_at_def)
  next
    case False
    then have more: "last_next m1 \<noteq> None" using rel by (cases qs) (auto simp: resize_rel_def)
    have "length ys1 + length qs < hm_capacity m1" using Cons.prems(3) len flds by simp
    moreover have "distinct (map e_key (entries_at (hm_buckets m1) ys1 @ entries_at old qs))"
      unfolding ents by (rule Cons.prems(5))
    moreover have "\<forall>c\<in>set qs. live (old ! c) \<longrightarrow> key_ok (old ! c)" using Cons.prems(4) by simp
    ultimately show ?thesis
      using Cons.IH [OF rel False] more step
      by (simp add: ents flds resize_loop.simps [of old m])
  qed
qed

lemma hm_shape_counters [simp]:
  "hm_shape (m\<lparr>hm_count := c\<rparr>) xs = hm_shape m xs"
  "hm_shape (m\<lparr>hm_tombstone_count := t\<rparr>) xs = hm_shape m xs"
  by (simp_all add: hm_shape_def)

lemma shape_null_buckets:
  "20 \<le> cap \<Longrightarrow>
   hm_shape \<lparr>hm_buckets = replicate cap null_bucket, hm_capacity = cap, hm_count = n,
     hm_tombstone_count = t, hm_first = None, hm_last = None\<rparr> []"
  by (simp add: hm_shape_def used_def null_bucket_def entries_at_def)

lemma length_entries_at: "length (entries_at bs xs) = length (filter (\<lambda>i. live (bs ! i)) xs)"
  by (simp add: entries_at_def)

lemma shape_key_ok: "hm_shape m xs \<Longrightarrow> \<forall>i\<in>set xs. live (hm_buckets m ! i) \<longrightarrow> key_ok (hm_buckets m ! i)"
  by (simp add: hm_shape_def live_ok_def key_ok_def)

lemma hashmap_resize_ok:
  assumes rep: "hm_rep m xs" and ne: "xs \<noteq> []"
  obtains m' ys where "hashmap_resize m = Some m'" "hm_rep m' ys"
    "entries_at (hm_buckets m') ys = entries_at (hm_buckets m) xs"
    "hm_capacity m' = 2 * hm_capacity m" "hm_tombstone_count m' = 0"
proof -
  let ?cap = "hm_capacity m * HASHMAP_RESIZE_FACTOR"
  let ?m0 = "m\<lparr>hm_capacity := ?cap, hm_buckets := replicate ?cap null_bucket, hm_last := None,
      hm_count := hm_count m - hm_tombstone_count m, hm_tombstone_count := 0\<rparr>"
  have sh: "hm_shape m xs" using rep by (simp add: hm_rep_def)
  have cap: "20 \<le> hm_capacity m" using sh by (simp add: hm_shape_def)
  have "hm_shape (set_last_next ?m0 None) []"
    using shape_null_buckets [of ?cap] cap
    by (simp add: set_last_next_def HASHMAP_RESIZE_FACTOR_def hm_shape_def)
  moreover have "chain (hm_buckets m) (last_next ?m0) xs"
    using sh by (simp add: last_next_def hm_shape_def)
  ultimately have "resize_rel (hm_buckets m) ?m0 [] xs" by (simp add: resize_rel_def)
  moreover have "length xs < ?cap"
    using rep cap by (simp add: hm_rep_def HASHMAP_RESIZE_FACTOR_def)
  moreover have "distinct (map e_key (entries_at (hm_buckets m) xs))"
    using sh by (simp add: hm_shape_def)
  ultimately obtain m' ys where m': "resize_loop (hm_buckets m) ?m0 = Some m'" "hm_shape m' ys"
      "\<forall>i\<in>set ys. live (hm_buckets m' ! i)"
      "entries_at (hm_buckets m') ys = entries_at (hm_buckets m) xs"
      "hm_capacity m' = ?cap" "hm_count m' = hm_count m - hm_tombstone_count m"
      "hm_tombstone_count m' = 0"
    using resize_loop_ok [of "hm_buckets m" ?m0 "[]" xs] ne shape_key_ok [OF sh]
    by (auto simp: entries_at_def)
  have all: "filter (\<lambda>i. live (hm_buckets m' ! i)) ys = ys" "filter (\<lambda>i. \<not> live (hm_buckets m' ! i)) ys = []"
    using m'(3) by (simp_all add: filter_id_conv filter_empty_conv)
  have "length ys = length (filter (\<lambda>i. live (hm_buckets m ! i)) xs)"
    using arg_cong [OF m'(4), of length] by (simp add: length_entries_at all)
  moreover have "length (filter (\<lambda>i. live (hm_buckets m ! i)) xs) +
      length (filter (\<lambda>i. \<not> live (hm_buckets m ! i)) xs) = length xs"
    by (rule sum_length_filter_compl)
  ultimately have "hm_rep m' ys"
    using rep m' all by (simp add: hm_rep_def HASHMAP_RESIZE_FACTOR_def)
  with m' show thesis
    by (intro that [of m' ys]) (simp_all add: hashmap_resize_def Let_def HASHMAP_RESIZE_FACTOR_def)
qed

end
