(* ===== verification/Hashmap_Correct.thy ===== *)
theory Hashmap_Correct
  imports Hashmap_Resize
begin

text \<open>
  Every operation of the map returns on a well-formed map, keeps it well-formed, and acts on
  the list of entries as its abstract counterpart does. The laws are collected as a locale,
  which the map interprets; the maps from paths to numbers and the cache rest on it.
\<close>

section \<open>The list of a well-formed map\<close>

lemma rep_hm_list: "hm_rep m xs \<Longrightarrow> hm_list m = xs"
  unfolding hm_list_def
  by (rule follow_chain) (auto simp: hm_rep_def hm_shape_def)

lemma hm_inv_iff: "hm_inv m \<longleftrightarrow> (\<exists>xs. hm_rep m xs)"
  unfolding hm_inv_def using rep_hm_list by metis

lemma rep_entries: "hm_rep m xs \<Longrightarrow> hm_entries m = entries_at (hm_buckets m) xs"
  by (simp add: hm_entries_def rep_hm_list)

lemma rep_invI: "hm_rep m xs \<Longrightarrow> hm_inv m"
  by (auto simp: hm_inv_iff)

lemma rep_distinct: "hm_rep m xs \<Longrightarrow> distinct (map e_key (entries_at (hm_buckets m) xs))"
  by (simp add: hm_rep_def hm_shape_def)

lemma inv_distinct_keys: "hm_inv m \<Longrightarrow> distinct (map e_key (hm_entries m))"
  by (auto simp: hm_inv_iff rep_entries rep_distinct)

section \<open>Changing one bucket of the list\<close>

lemma distinct_keys_iff:
  "distinct xs \<Longrightarrow>
   distinct (map e_key (entries_at bs xs)) \<longleftrightarrow>
     inj_on (\<lambda>i. bucket_key (bs ! i)) {i \<in> set xs. live (bs ! i)}"
  by (simp add: entries_at_def comp_def distinct_map)

lemma set_bucket_fields [simp]:
  "hm_capacity (set_bucket m i b) = hm_capacity m"
  "hm_count (set_bucket m i b) = hm_count m"
  "hm_tombstone_count (set_bucket m i b) = hm_tombstone_count m"
  "hm_buckets (set_bucket m i b) = (hm_buckets m)[i := b]"
  "hm_first (set_bucket m i b) = hm_first m"
  "hm_last (set_bucket m i b) = hm_last m"
  by (simp_all add: set_bucket_def)

lemma shape_update:
  assumes s: "hm_shape m xs" and i: "i \<in> set xs" and b: "b_next b = b_next (hm_buckets m ! i)" "used b"
    and same: "live b \<Longrightarrow> live (hm_buckets m ! i) \<and> key_ok b \<and>
      b_hash b = b_hash (hm_buckets m ! i) \<and> bucket_key b = bucket_key (hm_buckets m ! i)"
  shows "hm_shape (set_bucket m i b) xs"
proof -
  let ?bs = "hm_buckets m" and ?cap = "hm_capacity m"
  have len: "i < length ?bs" using s i shape_bound [OF s] by (simp add: hm_shape_def)
  have nth: "?bs[i := b] ! j = (if j = i then b else ?bs ! j)" for j
    using len by (simp add: nth_list_update_if)
  have used: "used (?bs[i := b] ! j) \<longleftrightarrow> used (?bs ! j)" if "j < ?cap" for j
    using s i b(2) that by (auto simp: nth hm_shape_def)
  have ok: "live_ok (?bs[i := b]) ?cap j" if j: "j \<in> set xs" "live (?bs[i := b] ! j)" for j
  proof -
    have "live_ok ?bs ?cap j" using s j same by (auto simp: nth hm_shape_def split: if_splits)
    then have "probe_path (\<lambda>j. used (?bs[i := b] ! j)) ?cap (unat (b_hash (?bs ! j)) mod ?cap) j"
      unfolding live_ok_def using used by (blast intro: probe_path_mono)
    moreover have "b_hash (?bs[i := b] ! j) = b_hash (?bs ! j)" using same j by (auto simp: nth)
    moreover have "key_ok (?bs[i := b] ! j)"
      using same j \<open>live_ok ?bs ?cap j\<close> by (auto simp: nth live_ok_def key_ok_def)
    ultimately show ?thesis unfolding live_ok_def key_ok_def by simp
  qed
  have d: "distinct xs" and "distinct (map e_key (entries_at ?bs xs))"
    using s by (simp_all add: hm_shape_def)
  then have "inj_on (\<lambda>j. bucket_key (?bs ! j)) {j \<in> set xs. live (?bs ! j)}"
    by (simp only: distinct_keys_iff)
  then have "inj_on (\<lambda>j. bucket_key (?bs[i := b] ! j)) {j \<in> set xs. live (?bs[i := b] ! j)}"
    using same by (auto simp: nth inj_on_def)
  then have "distinct (map e_key (entries_at (?bs[i := b]) xs))"
    by (simp only: distinct_keys_iff [OF d])
  with s i b ok used show ?thesis
    by (auto simp: hm_shape_def chain_update_same_next)
qed

lemma entries_at_update:
  assumes "hm_shape m xs" and "i \<in> set xs" and "live (hm_buckets m ! i)" and "live b"
  shows "entries_at ((hm_buckets m)[i := b]) xs =
    map (\<lambda>e. if e_key e = bucket_key (hm_buckets m ! i) then entry_of b else e)
      (entries_at (hm_buckets m) xs)"
proof -
  let ?bs = "hm_buckets m"
  have len: "i < length ?bs" using assms shape_bound [OF assms(1)] by (simp add: hm_shape_def)
  have flt: "filter (\<lambda>j. live (?bs[i := b] ! j)) xs = filter (\<lambda>j. live (?bs ! j)) xs"
    using assms(3,4) by (intro filter_cong) (auto simp: nth_list_update_if)
  have "entry_of (?bs[i := b] ! j) =
      (if bucket_key (?bs ! j) = bucket_key (?bs ! i) then entry_of b else entry_of (?bs ! j))"
    if "j \<in> set xs" "live (?bs ! j)" for j
    using entries_at_keys_inj [of ?bs xs j i] assms that len
    by (auto simp: nth_list_update_if hm_shape_def)
  then show ?thesis by (simp add: entries_at_def flt)
qed

lemma entries_at_kill:
  assumes "hm_shape m xs" and "i \<in> set xs" and "live (hm_buckets m ! i)" and "\<not> live b"
  shows "entries_at ((hm_buckets m)[i := b]) xs =
    ents_remove (bucket_key (hm_buckets m ! i)) (entries_at (hm_buckets m) xs)"
proof -
  let ?bs = "hm_buckets m"
  have len: "i < length ?bs" using assms shape_bound [OF assms(1)] by (simp add: hm_shape_def)
  have flt: "filter (\<lambda>j. live (?bs[i := b] ! j)) xs =
      filter (\<lambda>j. live (?bs ! j) \<and> bucket_key (?bs ! j) \<noteq> bucket_key (?bs ! i)) xs"
    using entries_at_keys_inj [of ?bs xs _ i] assms len
    by (intro filter_cong) (auto simp: nth_list_update_if hm_shape_def)
  have "entries_at (?bs[i := b]) xs =
      map (\<lambda>j. entry_of (?bs ! j)) (filter (\<lambda>j. live (?bs[i := b] ! j)) xs)"
    unfolding entries_at_def
    using assms(4) len by (intro map_cong) (auto simp: nth_list_update_if split: if_splits)
  also have "\<dots> = ents_remove (bucket_key (?bs ! i)) (entries_at ?bs xs)"
    by (simp only: flt) (simp add: entries_at_def ents_remove_def filter_map comp_def)
  finally show ?thesis .
qed

section \<open>The building blocks of the operations\<close>

lemma rep_room: "hm_rep m xs \<Longrightarrow> length xs < hm_capacity m"
  by (auto simp: hm_rep_def hm_shape_def)

lemma make_room_ok:
  assumes "hm_rep m xs"
  obtains m' ys where "make_room m = Some m'" "hm_rep m' ys"
    "entries_at (hm_buckets m') ys = entries_at (hm_buckets m) xs"
    "4 * (length ys + 1) \<le> 3 * hm_capacity m'"
proof (cases "too_full m")
  case False
  with assms show thesis
    by (intro that [of m xs]) (auto simp: make_room_def too_full_def hm_rep_def)
next
  case True
  have cap: "20 \<le> hm_capacity m" using assms by (simp add: hm_rep_def hm_shape_def)
  with True assms have "xs \<noteq> []" by (auto simp: too_full_def hm_rep_def)
  with assms obtain m' ys where m': "hashmap_resize m = Some m'" "hm_rep m' ys"
      "entries_at (hm_buckets m') ys = entries_at (hm_buckets m) xs"
      "hm_capacity m' = 2 * hm_capacity m" "hm_tombstone_count m' = 0"
    by (rule hashmap_resize_ok)
  have "filter (\<lambda>i. \<not> live (hm_buckets m' ! i)) ys = []"
    using m'(2,5) by (simp add: hm_rep_def)
  then have "length ys = length (entries_at (hm_buckets m') ys)"
    using sum_length_filter_compl [of "\<lambda>i. live (hm_buckets m' ! i)" ys]
    by (simp add: length_entries_at)
  also have "\<dots> \<le> length xs" by (simp add: m'(3) length_entries_at)
  finally have "4 * (length ys + 1) \<le> 3 * hm_capacity m'"
    using assms m'(4) cap by (simp add: hm_rep_def)
  with m' True show thesis by (intro that [of m' ys]) (simp_all add: make_room_def)
qed

lemma rep_update:
  assumes rep: "hm_rep m xs" and i: "i \<in> set xs" "live (hm_buckets m ! i)"
    and b: "b_next b = b_next (hm_buckets m ! i)" "live b" "key_ok b"
      "b_hash b = b_hash (hm_buckets m ! i)" "bucket_key b = bucket_key (hm_buckets m ! i)"
  shows "hm_rep (set_bucket m i b) xs"
proof -
  have s: "hm_shape m xs" using rep by (simp add: hm_rep_def)
  have "filter (\<lambda>j. \<not> live ((hm_buckets m)[i := b] ! j)) xs = filter (\<lambda>j. \<not> live (hm_buckets m ! j)) xs"
    using i b by (intro filter_cong) (auto simp: nth_list_update_if)
  with rep shape_update [OF s i(1) b(1)] b i show ?thesis
    by (simp add: hm_rep_def live_used)
qed

lemma rep_set_value:
  assumes rep: "hm_rep m xs" and i: "i \<in> set xs" "live (hm_buckets m ! i)"
  shows "hm_rep (set_entry_value m i v) xs"
    and "entries_at (hm_buckets (set_entry_value m i v)) xs =
      map (\<lambda>e. if e_key e = bucket_key (hm_buckets m ! i) then (fst e, fst (snd e), v) else e)
        (entries_at (hm_buckets m) xs)"
proof -
  let ?b = "(hm_buckets m ! i)\<lparr>b_value := v\<rparr>"
  have s: "hm_shape m xs" using rep by (simp add: hm_rep_def)
  have ko: "key_ok (hm_buckets m ! i)" using shape_key_ok [OF s] i by blast
  then show "hm_rep (set_entry_value m i v) xs"
    unfolding set_entry_value_def using i
    by (intro rep_update [OF rep]) (auto simp: live_def key_ok_def bucket_key_def)
  have "entry_of ?b = (fst e, fst (snd e), v)"
    if "e \<in> set (entries_at (hm_buckets m) xs)" "e_key e = bucket_key (hm_buckets m ! i)" for e
  proof -
    from that(1) obtain j where j: "e = entry_of (hm_buckets m ! j)" "j \<in> set xs" "live (hm_buckets m ! j)"
      by (auto simp: set_entries_at)
    with that i entries_at_keys_inj [of "hm_buckets m" xs j i] s have "j = i"
      by (auto simp: hm_shape_def)
    with j(1) show ?thesis by (simp add: entry_of_def)
  qed
  moreover have "live ?b" using i by (simp add: live_def)
  ultimately show "entries_at (hm_buckets (set_entry_value m i v)) xs =
      map (\<lambda>e. if e_key e = bucket_key (hm_buckets m ! i) then (fst e, fst (snd e), v) else e)
        (entries_at (hm_buckets m) xs)"
    unfolding set_entry_value_def set_bucket_fields
    by (subst entries_at_update [OF s i]) (auto intro!: map_cong)
qed

lemma rep_tombstone:
  assumes rep: "hm_rep m xs" and i: "i \<in> set xs" "live (hm_buckets m ! i)"
  shows "hm_rep (make_tombstone m i) xs"
    and "entries_at (hm_buckets (make_tombstone m i)) xs =
      ents_remove (bucket_key (hm_buckets m ! i)) (entries_at (hm_buckets m) xs)"
proof -
  let ?b = "(hm_buckets m ! i)\<lparr>b_key := None, b_value := 0xDEAD\<rparr>"
  have s: "hm_shape m xs" and d: "distinct xs" using rep by (auto simp: hm_rep_def hm_shape_def)
  have len: "i < length (hm_buckets m)" using s i shape_bound [OF s] by (simp add: hm_shape_def)
  have dead: "\<not> live ?b" by (simp add: live_def)
  show ents: "entries_at (hm_buckets (make_tombstone m i)) xs =
      ents_remove (bucket_key (hm_buckets m ! i)) (entries_at (hm_buckets m) xs)"
    using entries_at_kill [OF s i dead] by (simp add: make_tombstone_def)
  have "hm_shape (make_tombstone m i) xs"
    unfolding make_tombstone_def hm_shape_counters
    by (rule shape_update [OF s i(1)]) (simp_all add: used_def live_def)
  moreover have "length (filter (\<lambda>j. \<not> live (hm_buckets (make_tombstone m i) ! j)) xs) =
      Suc (length (filter (\<lambda>j. \<not> live (hm_buckets m ! j)) xs))"
  proof -
    have "set (filter (\<lambda>j. \<not> live (hm_buckets (make_tombstone m i) ! j)) xs) =
        insert i (set (filter (\<lambda>j. \<not> live (hm_buckets m ! j)) xs))"
      using i len dead by (auto simp: make_tombstone_def nth_list_update_if)
    moreover have "i \<notin> set (filter (\<lambda>j. \<not> live (hm_buckets m ! j)) xs)" using i by simp
    ultimately show ?thesis
      using d by (metis List.finite_set card_insert_disjoint distinct_card distinct_filter)
  qed
  ultimately show "hm_rep (make_tombstone m i) xs"
    using rep by (simp add: hm_rep_def make_tombstone_def)
qed

definition new_bucket :: "string \<Rightarrow> nat \<Rightarrow> 64 word \<Rightarrow> bucket" where
  "new_bucket key n v =
     \<lparr>b_next = None, b_key = Some key, b_ksize = n, b_hash = hash_data key n, b_value = v\<rparr>"

lemma bucket_all_fields:
  "b\<lparr>b_next := p, b_key := k, b_ksize := n, b_hash := h, b_value := v\<rparr> =
     \<lparr>b_next = p, b_key = k, b_ksize = n, b_hash = h, b_value = v\<rparr>" for b :: bucket
  by (cases b) simp

lemma append_entry_eq:
  assumes "hm_last m \<noteq> Some i" and "i < length (hm_buckets m)"
  shows "set_entry_value (append_entry m i key n (hash_data key n)) i v =
    link_bucket m i (new_bucket key n v)\<lparr>hm_count := hm_count m + 1\<rparr>"
  using assms
  by (cases m; cases "hm_last m")
     (simp_all add: append_entry_def set_entry_value_def set_last_next_def set_bucket_def
        link_bucket_def new_bucket_def Let_def bucket_all_fields)

lemma rep_append:
  assumes rep: "hm_rep m xs" and i: "i < hm_capacity m" "i \<notin> set xs" and n: "n \<le> length key"
    and path: "probe_path (\<lambda>j. used (hm_buckets m ! j)) (hm_capacity m)
         (unat (hash_data key n) mod hm_capacity m) i"
    and new: "\<forall>j\<in>set xs. live (hm_buckets m ! j) \<longrightarrow> bucket_key (hm_buckets m ! j) \<noteq> take n key"
    and room: "4 * (length xs + 1) \<le> 3 * hm_capacity m"
  shows "hm_rep (set_entry_value (append_entry m i key n (hash_data key n)) i v) (xs @ [i])"
    and "entries_at (hm_buckets (set_entry_value (append_entry m i key n (hash_data key n)) i v))
        (xs @ [i]) = entries_at (hm_buckets m) xs @ [(key, n, v)]"
proof -
  let ?b = "new_bucket key n v"
  have s: "hm_shape m xs" using rep by (simp add: hm_rep_def)
  then have len: "i < length (hm_buckets m)" using i by (simp add: hm_shape_def)
  have last: "hm_last m \<noteq> Some i"
    using s i(2) by (auto simp: hm_shape_def split: if_splits)
  have b: "live ?b" by (simp add: live_def new_bucket_def)
  have "hm_shape (link_bucket m i ?b) (xs @ [i])"
    using n path new b
    by (intro shape_link_bucket [OF s i]) (auto simp: new_bucket_def bucket_key_def)
  moreover have "filter (\<lambda>j. \<not> live (hm_buckets (link_bucket m i ?b) ! j)) (xs @ [i]) =
      filter (\<lambda>j. \<not> live (hm_buckets m ! j)) xs"
  proof -
    have "filter (\<lambda>j. \<not> live (hm_buckets (link_bucket m i ?b) ! j)) xs =
        filter (\<lambda>j. \<not> live (hm_buckets m ! j)) xs"
      using i by (intro filter_cong) (auto simp: link_bucket_nth [OF s i] shape_bound [OF s])
    then show ?thesis using b i by (simp add: link_bucket_nth [OF s i])
  qed
  ultimately show "hm_rep (set_entry_value (append_entry m i key n (hash_data key n)) i v) (xs @ [i])"
    using rep room by (simp add: append_entry_eq [OF last len] hm_rep_def)
  show "entries_at (hm_buckets (set_entry_value (append_entry m i key n (hash_data key n)) i v))
        (xs @ [i]) = entries_at (hm_buckets m) xs @ [(key, n, v)]"
    using link_bucket_entries [OF s i b]
    by (simp add: append_entry_eq [OF last len] entry_of_def) (simp add: new_bucket_def)
qed

section \<open>Refinement of the operations\<close>

lemma key_absent_iff:
  "take n key \<notin> e_key ` set (entries_at bs xs) \<longleftrightarrow>
     (\<forall>j\<in>set xs. live (bs ! j) \<longrightarrow> bucket_key (bs ! j) \<noteq> take n key)"
  by (force simp: set_entries_at)

lemma key_present:
  "i \<in> set xs \<Longrightarrow> live (bs ! i) \<Longrightarrow> bucket_key (bs ! i) \<in> e_key ` set (entries_at bs xs)"
  by (force simp: set_entries_at)

lemma absent_not_live:
  assumes "hm_rep m xs" and "i < hm_capacity m" and "i \<notin> set xs"
  shows "b_key (hm_buckets m ! i) = None" and "b_value (hm_buckets m ! i) = 0"
  using assms by (auto simp: hm_rep_def hm_shape_def used_def)

text \<open>
  The common head of the writing operations: make room, then look for the key. Either its live
  bucket is found, or an empty bucket at which a new entry can be linked.
\<close>

lemma room_lookup:
  assumes rep: "hm_rep m xs" and n: "n \<le> length key"
  obtains (present) m1 ys i where "make_room m = Some m1" "hm_rep m1 ys"
      "entries_at (hm_buckets m1) ys = entries_at (hm_buckets m) xs"
      "find_entry m1 key n (hash_data key n) = Some i" "i \<in> set ys"
      "live (hm_buckets m1 ! i)" "bucket_key (hm_buckets m1 ! i) = take n key"
  | (absent) m1 ys i where "make_room m = Some m1" "hm_rep m1 ys"
      "find_entry m1 key n (hash_data key n) = Some i" "b_key (hm_buckets m1 ! i) = None"
      "take n key \<notin> e_key ` set (entries_at (hm_buckets m) xs)"
      "\<And>v. hm_rep (set_entry_value (append_entry m1 i key n (hash_data key n)) i v) (ys @ [i])"
      "\<And>v. entries_at (hm_buckets (set_entry_value (append_entry m1 i key n (hash_data key n)) i v))
         (ys @ [i]) = entries_at (hm_buckets m) xs @ [(key, n, v)]"
proof -
  obtain m1 ys where m1: "make_room m = Some m1" "hm_rep m1 ys"
      "entries_at (hm_buckets m1) ys = entries_at (hm_buckets m) xs"
      "4 * (length ys + 1) \<le> 3 * hm_capacity m1"
    using make_room_ok [OF rep] by blast
  have s: "hm_shape m1 ys" using m1(2) by (simp add: hm_rep_def)
  show thesis
  proof (rule find_entry_cases [OF s rep_room [OF m1(2)] n], goal_cases)
    case (1 i)
    with m1 show thesis by (intro present [of m1 ys i])
  next
    case (2 i)
    note app = rep_append [OF m1(2) 2(2,3) n 2(4,5) m1(4)]
    have "take n key \<notin> e_key ` set (entries_at (hm_buckets m) xs)"
      using 2(5) by (simp only: m1(3) [symmetric] key_absent_iff)
    from m1(1,2) 2(1) absent_not_live(1) [OF m1(2) 2(2,3)] this app [unfolded m1(3)]
    show thesis by (rule absent)
  qed
qed

lemma hashmap_set_rep:
  assumes rep: "hm_rep m xs" and n: "n \<le> length key"
  obtains m' ys where "hashmap_set m key n v = Some m'" "hm_rep m' ys"
    "entries_at (hm_buckets m') ys = ents_set key n v (entries_at (hm_buckets m) xs)"
proof (rule room_lookup [OF rep n], goal_cases)
  case present: (1 m1 ys i)
  have "take n key \<in> e_key ` set (entries_at (hm_buckets m1) ys)"
    using key_present [of i ys "hm_buckets m1"] present by simp
  with present(2-) rep_set_value [OF present(3,6,7), of v] show thesis
    by (intro present(1) [of "set_entry_value m1 i v" ys])
       (auto simp: hashmap_set_def ents_set_def live_def)
next
  case absent: (2 m1 ys i)
  then show thesis
    by (intro absent(1) [of "set_entry_value (append_entry m1 i key n (hash_data key n)) i v" "ys @ [i]"])
       (auto simp: hashmap_set_def ents_set_def)
qed

text \<open>Where a lookup ends: the entry of the key, or an empty bucket with value 0.\<close>

lemma lookup_rep:
  assumes rep: "hm_rep m xs" and n: "n \<le> length key"
  obtains (present) i where "find_entry m key n (hash_data key n) = Some i" "i \<in> set xs"
      "live (hm_buckets m ! i)" "bucket_key (hm_buckets m ! i) = take n key"
      "ents_get (hm_entries m) (take n key) = Some (b_value (hm_buckets m ! i))"
  | (absent) i where "find_entry m key n (hash_data key n) = Some i"
      "b_key (hm_buckets m ! i) = None" "b_value (hm_buckets m ! i) = 0"
      "ents_get (hm_entries m) (take n key) = None"
      "take n key \<notin> e_key ` set (hm_entries m)"
proof -
  have s: "hm_shape m xs" using rep by (simp add: hm_rep_def)
  have none: "ents_get (hm_entries m) (take n key) = None" if "take n key \<notin> e_key ` set (hm_entries m)"
  proof -
    have "find (\<lambda>e. e_key e = take n key) (hm_entries m) = None"
      using that by (metis (mono_tags, lifting) find_None_iff image_eqI)
    then show ?thesis by (simp add: ents_get_def)
  qed
  have some: "ents_get (hm_entries m) (bucket_key (hm_buckets m ! i)) = Some (b_value (hm_buckets m ! i))"
    if i: "i \<in> set xs" "live (hm_buckets m ! i)" for i
  proof -
    let ?es = "entries_at (hm_buckets m) xs"
    have mem: "entry_of (hm_buckets m ! i) \<in> set ?es" using i by (auto simp: set_entries_at)
    have unique: "e = entry_of (hm_buckets m ! i)"
      if "e \<in> set ?es" "e_key e = bucket_key (hm_buckets m ! i)" for e
    proof -
      from that(1) obtain j where j: "e = entry_of (hm_buckets m ! j)" "j \<in> set xs" "live (hm_buckets m ! j)"
        by (auto simp: set_entries_at)
      with that(2) i entries_at_keys_inj [of "hm_buckets m" xs j i] s have "j = i"
        by (simp add: hm_shape_def)
      with j(1) show ?thesis by simp
    qed
    have "find (\<lambda>e. e_key e = bucket_key (hm_buckets m ! i)) ?es = Some (entry_of (hm_buckets m ! i))"
      by (rule find_unique [OF mem _ unique]) simp_all
    then show ?thesis by (simp add: ents_get_def rep_entries [OF rep] entry_of_def)
  qed
  show thesis
  proof (rule find_entry_cases [OF s rep_room [OF rep] n], goal_cases)
    case (1 i)
    with some [of i] show thesis by (intro present [of i]) simp_all
  next
    case (2 i)
    have abs: "take n key \<notin> e_key ` set (hm_entries m)"
      using 2(5) by (simp only: rep_entries [OF rep] key_absent_iff)
    from 2(1) absent_not_live [OF rep 2(2,3)] none [OF abs] abs show thesis by (rule absent)
  qed
qed

lemma hashmap_set_law:
  assumes "hm_inv m" and "n \<le> length key"
  shows "\<exists>m'. hashmap_set m key n v = Some m' \<and> hm_inv m' \<and>
    hm_entries m' = ents_set key n v (hm_entries m)"
proof -
  from assms(1) obtain xs where rep: "hm_rep m xs" by (auto simp: hm_inv_iff)
  from hashmap_set_rep [OF rep assms(2), of v] obtain m' ys where
    "hashmap_set m key n v = Some m'" "hm_rep m' ys"
    "entries_at (hm_buckets m') ys = ents_set key n v (entries_at (hm_buckets m) xs)" .
  with rep show ?thesis by (auto simp: rep_entries intro: rep_invI)
qed

lemma hashmap_get_law:
  assumes "hm_inv m" and "n \<le> length key"
  shows "hashmap_get m key n =
    Some (case ents_get (hm_entries m) (take n key) of None \<Rightarrow> (False, 0) | Some v \<Rightarrow> (True, v))"
proof -
  from assms(1) obtain xs where rep: "hm_rep m xs" by (auto simp: hm_inv_iff)
  from lookup_rep [OF rep assms(2)] show ?thesis
    by cases (auto simp: hashmap_get_def live_def)
qed

lemma hm_first_tombstone: "hm_first (make_tombstone m i) = hm_first m"
  by (simp add: make_tombstone_def)

lemma hashmap_remove_rep:
  assumes rep: "hm_rep m xs" and n: "n \<le> length key"
  obtains m' where "hashmap_remove m key n = Some m'" "hm_rep m' xs"
    "hm_entries m' = ents_remove (take n key) (hm_entries m)"
    "map b_next (hm_buckets m') = map b_next (hm_buckets m)" "hm_first m' = hm_first m"
proof (rule lookup_rep [OF rep n], goal_cases)
  case present: (1 i)
  note kill = rep_tombstone [OF rep present(3,4)]
  have "map b_next (hm_buckets (make_tombstone m i)) = map b_next (hm_buckets m)"
    by (cases "i < length (hm_buckets m)")
       (simp_all add: make_tombstone_def map_update list_update_beyond list_update_same_conv)
  with present kill show thesis
    by (intro that [of "make_tombstone m i"])
       (auto simp: hashmap_remove_def live_def rep_entries [OF rep] rep_entries [OF kill(1)] hm_first_tombstone)
next
  case absent: (2 i)
  then have "ents_remove (take n key) (hm_entries m) = hm_entries m"
    unfolding ents_remove_def by (metis (mono_tags, lifting) filter_True image_eqI)
  with absent rep show thesis by (intro that [of m]) (simp_all add: hashmap_remove_def)
qed

lemma hashmap_remove_law:
  assumes "hm_inv m" and "n \<le> length key"
  shows "\<exists>m'. hashmap_remove m key n = Some m' \<and> hm_inv m' \<and>
    hm_entries m' = ents_remove (take n key) (hm_entries m)"
proof -
  from assms(1) obtain xs where rep: "hm_rep m xs" by (auto simp: hm_inv_iff)
  from hashmap_remove_rep [OF rep assms(2)] show ?thesis by (metis rep_invI)
qed

text \<open>
  \<^verbatim>\<open>hashmap_size\<close>, the difference of the two counters, is the number of entries.
\<close>

theorem hashmap_size_entries:
  assumes "hm_inv m"
  shows "hashmap_size m = int (length (hm_entries m))"
proof -
  from assms obtain xs where rep: "hm_rep m xs" by (auto simp: hm_inv_iff)
  have "length (filter (\<lambda>i. live (hm_buckets m ! i)) xs) +
      length (filter (\<lambda>i. \<not> live (hm_buckets m ! i)) xs) = length xs"
    by (rule sum_length_filter_compl)
  with rep show ?thesis
    by (simp add: hashmap_size_def hm_rep_def rep_entries [OF rep] length_entries_at)
qed

lemma hashmap_create_rep: "hm_rep hashmap_create []"
  using shape_null_buckets [of 20 0 0]
  by (simp add: hm_rep_def hashmap_create_def HASHMAP_DEFAULT_CAPACITY_def)

lemma hashmap_create_correct: "hm_inv hashmap_create" "hm_entries hashmap_create = []"
  using hashmap_create_rep by (auto simp: rep_entries entries_at_def intro: rep_invI)

section \<open>The combined operations\<close>

lemma present_get:
  assumes "hm_rep m ys" and "entries_at (hm_buckets m) ys = es" and "i \<in> set ys"
    and "live (hm_buckets m ! i)" and "bucket_key (hm_buckets m ! i) = k"
  shows "find (\<lambda>e. e_key e = k) es = Some (entry_of (hm_buckets m ! i))"
proof (rule find_unique)
  show "entry_of (hm_buckets m ! i) \<in> set es" using assms by (auto simp: set_entries_at)
  show "e_key (entry_of (hm_buckets m ! i)) = k" using assms(5) by simp
next
  fix e assume e: "e \<in> set es" "e_key e = k"
  from e(1) assms(2) obtain j where j: "e = entry_of (hm_buckets m ! j)" "j \<in> set ys" "live (hm_buckets m ! j)"
    by (auto simp: set_entries_at)
  have "j = i"
    by (rule entries_at_keys_inj [of "hm_buckets m" ys])
       (use assms e(2) j in \<open>auto simp: hm_rep_def hm_shape_def\<close>)
  with j(1) show "e = entry_of (hm_buckets m ! i)" by simp
qed

lemma absent_find: "k \<notin> e_key ` set es \<Longrightarrow> find (\<lambda>e. e_key e = k) es = None"
  by (metis (mono_tags, lifting) find_None_iff image_eqI)

text \<open>
  \<^verbatim>\<open>hashmap_get_set\<close> inserts the given value for a new key and reports \<^verbatim>\<open>false\<close>; for a
  known key it changes no entry and hands back the stored value with \<^verbatim>\<open>true\<close>.
\<close>

theorem hashmap_get_set_refines:
  assumes "hm_inv m" and "n \<le> length key"
  shows "\<exists>m'. hm_inv m' \<and>
    (case ents_get (hm_entries m) (take n key) of
       None \<Rightarrow> hashmap_get_set m key n v = Some (False, v, m') \<and>
              hm_entries m' = hm_entries m @ [(key, n, v)]
     | Some w \<Rightarrow> hashmap_get_set m key n v = Some (True, w, m') \<and> hm_entries m' = hm_entries m)"
proof -
  from assms(1) obtain xs where rep: "hm_rep m xs" by (auto simp: hm_inv_iff)
  show ?thesis
  proof (rule room_lookup [OF rep assms(2)], goal_cases)
    case (1 m1 ys i)
    note present_get [OF 1(2,3,5,6,7)]
    with 1 rep show ?thesis
      by (intro exI [of _ m1])
         (auto simp: hashmap_get_set_def ents_get_def rep_entries [OF rep] rep_entries [OF 1(2)]
            live_def entry_of_def intro: rep_invI)
  next
    case (2 m1 ys i)
    let ?m' = "set_entry_value (append_entry m1 i key n (hash_data key n)) i v"
    from 2 rep absent_find [OF 2(5)] show ?thesis
      by (intro exI [of _ ?m'])
         (auto simp: hashmap_get_set_def ents_get_def rep_entries [OF rep] rep_entries [OF 2(6)]
            intro: rep_invI)
  qed
qed

text \<open>The abstract effect of \<^verbatim>\<open>hashmap_set_free\<close>: key pointer and value of the entry are replaced.\<close>

definition ents_replace :: "string \<Rightarrow> nat \<Rightarrow> 64 word \<Rightarrow> entry list \<Rightarrow> entry list" where
  "ents_replace key n v es =
     (if take n key \<in> e_key ` set es
      then map (\<lambda>e. if e_key e = take n key then (key, n, v) else e) es
      else es @ [(key, n, v)])"

lemma rep_replace:
  fixes v :: "64 word"
  assumes rep: "hm_rep m xs" and n: "n \<le> length key" and i: "i \<in> set xs" "live (hm_buckets m ! i)"
    and k: "bucket_key (hm_buckets m ! i) = take n key"
  defines "b \<equiv> (hm_buckets m ! i)\<lparr>b_key := Some key, b_value := v\<rparr>"
  shows "b_ksize (hm_buckets m ! i) = n" and "hm_rep (set_bucket m i b) xs"
    and "entries_at (hm_buckets (set_bucket m i b)) xs =
      map (\<lambda>e. if e_key e = take n key then (key, n, v) else e) (entries_at (hm_buckets m) xs)"
proof -
  have s: "hm_shape m xs" using rep by (simp add: hm_rep_def)
  have ko: "key_ok (hm_buckets m ! i)" using shape_key_ok [OF s] i by blast
  then show ks: "b_ksize (hm_buckets m ! i) = n"
    using k n unfolding key_ok_def bucket_key_def by (metis length_take min.absorb2)
  have lb: "live b" by (simp add: b_def live_def)
  have "b_hash (hm_buckets m ! i) = hash_data key n"
    using ko k ks unfolding key_ok_def bucket_key_def by (metis hash_data_take)
  then have "key_ok b" using n ks by (simp add: key_ok_def b_def)
  moreover have "bucket_key b = take n key" using ks by (simp add: b_def bucket_key_def)
  ultimately show "hm_rep (set_bucket m i b) xs"
    using k lb by (intro rep_update [OF rep i]) (simp_all add: b_def)
  show "entries_at (hm_buckets (set_bucket m i b)) xs =
      map (\<lambda>e. if e_key e = take n key then (key, n, v) else e) (entries_at (hm_buckets m) xs)"
    using entries_at_update [OF s i lb] k ks by (simp add: entry_of_def b_def)
qed

text \<open>
  \<^verbatim>\<open>hashmap_set_free\<close> replaces both the key pointer and the value of a known key, and
  calls the callback exactly then, on the old key pointer and the old value; a new key is
  appended without a call.
\<close>

theorem hashmap_set_free_refines:
  assumes "hm_inv m" and "n \<le> length key"
  shows "\<exists>m'. hm_inv m' \<and> hm_entries m' = ents_replace key n v (hm_entries m) \<and>
    hashmap_set_free m key n v c usr =
      Some (m', case find (\<lambda>e. e_key e = take n key) (hm_entries m) of
                  None \<Rightarrow> usr
                | Some (old, old_size, w) \<Rightarrow> c old n w usr)"
proof -
  from assms(1) obtain xs where rep: "hm_rep m xs" by (auto simp: hm_inv_iff)
  show ?thesis
  proof (rule room_lookup [OF rep assms(2)], goal_cases)
    case (1 m1 ys i)
    note upd = rep_replace(1) [OF 1(2) assms(2) 1(5,6,7)]
      rep_replace(2,3) [OF 1(2) assms(2) 1(5,6,7), of v]
    note found = present_get [OF 1(2,3,5,6,7)]
    have "take n key \<in> e_key ` set (hm_entries m)"
      using key_present [OF 1(5,6)] 1(3,7) by (simp add: rep_entries [OF rep])
    with 1 upd found show ?thesis
      by (intro exI [of _ "set_bucket m1 i ((hm_buckets m1 ! i)\<lparr>b_key := Some key, b_value := v\<rparr>)"])
         (auto simp: hashmap_set_free_def Let_def ents_replace_def rep_entries [OF rep]
            rep_entries [OF upd(2)] live_def entry_of_def intro: rep_invI)
  next
    case (2 m1 ys i)
    let ?m' = "set_entry_value (append_entry m1 i key n (hash_data key n)) i v"
    from 2 absent_find [OF 2(5)] show ?thesis
      by (intro exI [of _ ?m'])
         (auto simp: hashmap_set_free_def Let_def ents_replace_def rep_entries [OF rep] rep_entries [OF 2(6)]
            intro: rep_invI)
  qed
qed

section \<open>Walking over the map\<close>

text \<open>
  Where the walk stands at bucket \<open>i\<close>, the callback runs on the bucket as it is now; a tombstone
  is passed over. As long as the callback does not relink the list, the walk visits exactly the
  buckets of the list it started with and then ends.
\<close>

definition visit ::
  "(string \<Rightarrow> nat \<Rightarrow> 64 word \<Rightarrow> hashmap \<times> 'u \<Rightarrow> hashmap \<times> 'u) \<Rightarrow> nat \<Rightarrow> hashmap \<times> 'u \<Rightarrow> hashmap \<times> 'u" where
  "visit c i s =
     (let entry = hm_buckets (fst s) ! i
      in case b_key entry of None \<Rightarrow> s | Some key \<Rightarrow> c key (b_ksize entry) (b_value entry) s)"

lemma iterate_from_fold:
  assumes keep: "\<And>i s. i \<in> set ys \<Longrightarrow> I s \<Longrightarrow>
      I (visit c i s) \<and> map b_next (hm_buckets (fst (visit c i s))) = map b_next (hm_buckets (fst s))"
  shows "I s \<Longrightarrow> chain (hm_buckets (fst s)) p xs \<Longrightarrow> set xs \<subseteq> set ys \<Longrightarrow>
    iterate_from c p s = Some (fold (visit c) xs s)"
proof (induction xs arbitrary: p s)
  case Nil
  then show ?case by (simp add: iterate_from.simps)
next
  case (Cons i xs)
  have inv: "I (visit c i s)" and nxt: "map b_next (hm_buckets (fst (visit c i s))) = map b_next (hm_buckets (fst s))"
    using keep Cons.prems(1,3) by auto
  have "i < length (hm_buckets (fst s))" using Cons.prems(2) by simp
  then have "b_next (hm_buckets (fst (visit c i s)) ! i) = b_next (hm_buckets (fst s) ! i)"
    using nxt by (metis length_map nth_map)
  moreover have "chain (hm_buckets (fst (visit c i s))) (b_next (hm_buckets (fst s) ! i)) xs"
    using Cons.prems(2) chain_cong_next [OF nxt] by simp
  ultimately have "iterate_from c (b_next (hm_buckets (fst (visit c i s)) ! i)) (visit c i s) =
      Some (fold (visit c) xs (visit c i s))"
    using Cons.IH [OF inv] Cons.prems(3) by simp
  with Cons.prems(2) show ?case
    by (subst iterate_from.simps) (simp add: visit_def Let_def)
qed

lemma fold_visit_reader:
  assumes "\<And>k n v s. fst (c k n v s) = fst s"
  shows "fold (visit c) xs (m, u) =
    fold (\<lambda>(k, n, v) s. c k n v s) (entries_at (hm_buckets m) xs) (m, u)"
proof (induction xs arbitrary: u)
  case Nil
  then show ?case by (simp add: entries_at_def)
next
  case (Cons i xs)
  have "\<exists>u'. visit c i (m, u) = (m, u')"
    using assms by (auto simp: visit_def Let_def split: option.split) (metis fst_conv surj_pair)
  then obtain u' where "visit c i (m, u) = (m, u')" ..
  moreover have "fold (\<lambda>(k, n, v) s. c k n v s) (entries_at (hm_buckets m) [i]) (m, u) = visit c i (m, u)"
    by (auto simp: entries_at_def visit_def live_def entry_of_def Let_def)
  ultimately show ?case
    using Cons.IH entries_at_append [of "hm_buckets m" "[i]" xs] by simp
qed

lemma hashmap_iterate_law:
  assumes inv: "hm_inv m" and c: "\<And>k n v s. fst (c k n v s) = fst s"
  shows "hashmap_iterate c m u = Some (fold (\<lambda>(k, n, v) s. c k n v s) (hm_entries m) (m, u))"
proof -
  from inv obtain xs where rep: "hm_rep m xs" by (auto simp: hm_inv_iff)
  then have chain: "chain (hm_buckets m) (hm_first m) xs" by (simp add: hm_rep_def hm_shape_def)
  have "fst (visit c i s) = fst s" for i s
    by (cases "b_key (hm_buckets (fst s) ! i)") (simp_all add: visit_def Let_def c)
  then have "iterate_from c (hm_first m) (m, u) = Some (fold (visit c) xs (m, u))"
    using chain by (intro iterate_from_fold [where I = "\<lambda>_. True" and ys = xs]) simp_all
  then show ?thesis
    by (simp add: hashmap_iterate_def rep_entries [OF rep] fold_visit_reader [of c, OF c])
qed

text \<open>
  Claim C19. \<^verbatim>\<open>hashmap_iterate\<close> with a callback that does not change the map ends and calls it once
  for every entry, in the order in which the entries were added.
\<close>

theorem hashmap_iterate_order:
  assumes "hm_inv m" and "\<forall>k n v s. fst (c k n v s) = fst s"
  shows "hashmap_iterate c m u = Some (fold (\<lambda>(k, n, v) s. c k n v s) (hm_entries m) (m, u))"
  by (rule hashmap_iterate_law [OF assms(1)]) (use assms(2) in blast)

text \<open>A walk that removes the entries it is at when \<open>P\<close> holds of the key, and nothing else.\<close>

lemma hashmap_remove_at:
  assumes rep: "hm_rep m xs" and i: "i \<in> set xs" "b_key (hm_buckets m ! i) = Some k"
  shows "hashmap_remove m k (b_ksize (hm_buckets m ! i)) = Some (make_tombstone m i)"
proof -
  have s: "hm_shape m xs" using rep by (simp add: hm_rep_def)
  have lv: "live (hm_buckets m ! i)" using i by (simp add: live_def)
  then have n: "b_ksize (hm_buckets m ! i) \<le> length k"
    using s i by (auto simp: hm_shape_def live_ok_def)
  have k: "bucket_key (hm_buckets m ! i) = take (b_ksize (hm_buckets m ! i)) k"
    using i by (simp add: bucket_key_def)
  show ?thesis
  proof (rule lookup_rep [OF rep n], goal_cases)
    case (1 j)
    then have "j = i"
      using entries_at_keys_inj [of "hm_buckets m" xs j i] s i lv k by (simp add: hm_shape_def)
    with 1 i show ?case by (simp add: hashmap_remove_def)
  next
    case 2
    with key_present [OF i(1) lv] k show ?case by (simp add: rep_entries [OF rep])
  qed
qed

lemma make_tombstone_next:
  "map b_next (hm_buckets (make_tombstone m i)) = map b_next (hm_buckets m)"
  by (cases "i < length (hm_buckets m)")
     (simp_all add: make_tombstone_def map_update list_update_beyond list_update_same_conv)

lemma remove_visit:
  assumes c: "\<And>k n v m. hm_inv m \<Longrightarrow> Q (k, n, v) \<Longrightarrow> c k n v (m, u) =
      (if P k then (the (hashmap_remove m k n), u) else (m, u))"
    and rep: "hm_rep m xs" and i: "i \<in> set xs" and Q: "list_all Q (hm_entries m)"
  obtains m' F where "visit c i (m, u) = (m', u)" "hm_rep m' xs"
    "map b_next (hm_buckets m') = map b_next (hm_buckets m)"
    "hm_entries m' = filter F (hm_entries m)" "\<forall>e\<in>set (hm_entries m). \<not> F e \<longrightarrow> P (fst e)"
    "\<forall>j. hm_buckets m' ! j = hm_buckets m ! j \<or> \<not> live (hm_buckets m' ! j)"
    "\<forall>k. b_key (hm_buckets m' ! i) = Some k \<longrightarrow> \<not> P k"
proof (cases "\<exists>k. b_key (hm_buckets m ! i) = Some k \<and> P k")
  case True
  then obtain k where k: "b_key (hm_buckets m ! i) = Some k" "P k" by blast
  let ?b = "hm_buckets m ! i" and ?m = "make_tombstone m i"
  have lv: "live ?b" using k by (simp add: live_def)
  have mem: "entry_of ?b \<in> set (hm_entries m)" using i lv by (auto simp: rep_entries [OF rep] set_entries_at)
  have "Q (k, b_ksize ?b, b_value ?b)" using mem Q k by (auto simp: list_all_iff entry_of_def)
  then have v: "visit c i (m, u) = (?m, u)"
    using k c [OF rep_invI [OF rep]] hashmap_remove_at [OF rep i k(1)] by (simp add: visit_def)
  note kill = rep_tombstone [OF rep i lv]
  have len: "i < length (hm_buckets m)"
    using rep i shape_bound [of m xs] by (simp add: hm_rep_def hm_shape_def)
  show thesis
  proof (rule that [of ?m "\<lambda>e. e_key e \<noteq> bucket_key ?b"])
    show "hm_entries ?m = filter (\<lambda>e. e_key e \<noteq> bucket_key ?b) (hm_entries m)"
      using kill by (simp add: rep_entries [OF rep] rep_entries [OF kill(1)] ents_remove_def)
    show "\<forall>e\<in>set (hm_entries m). \<not> e_key e \<noteq> bucket_key ?b \<longrightarrow> P (fst e)"
    proof (intro ballI impI)
      fix e assume e: "e \<in> set (hm_entries m)" "\<not> e_key e \<noteq> bucket_key ?b"
      have "e = entry_of ?b"
        using inv_distinct_keys [OF rep_invI [OF rep]] e mem e_key_entry_of [of ?b]
        unfolding distinct_map by (metis inj_onD)
      with k show "P (fst e)" by (simp add: entry_of_def)
    qed
    show "\<forall>j. hm_buckets ?m ! j = hm_buckets m ! j \<or> \<not> live (hm_buckets ?m ! j)"
      using len by (auto simp: make_tombstone_def nth_list_update_if live_def)
    show "\<forall>k. b_key (hm_buckets ?m ! i) = Some k \<longrightarrow> \<not> P k"
      using len by (simp add: make_tombstone_def)
  qed (use v kill(1) make_tombstone_next in blast)+
next
  case False
  have "visit c i (m, u) = (m, u)"
  proof (cases "b_key (hm_buckets m ! i)")
    case (Some k)
    then have "entry_of (hm_buckets m ! i) \<in> set (hm_entries m)"
      using i by (auto simp: rep_entries [OF rep] set_entries_at live_def)
    then have "Q (k, b_ksize (hm_buckets m ! i), b_value (hm_buckets m ! i))"
      using Q Some by (auto simp: list_all_iff entry_of_def)
    with False Some c [OF rep_invI [OF rep]] show ?thesis by (simp add: visit_def)
  qed (simp add: visit_def)
  with False rep show thesis by (intro that [of m "\<lambda>_. True"]) auto
qed

lemma remove_fold:
  assumes c: "\<And>k n v m. hm_inv m \<Longrightarrow> Q (k, n, v) \<Longrightarrow> c k n v (m, u) =
      (if P k then (the (hashmap_remove m k n), u) else (m, u))"
  shows "hm_rep m xs \<Longrightarrow> list_all Q (hm_entries m) \<Longrightarrow> set ys \<subseteq> set xs \<Longrightarrow>
    \<exists>m' F. fold (visit c) ys (m, u) = (m', u) \<and> hm_rep m' xs \<and>
      hm_entries m' = filter F (hm_entries m) \<and> (\<forall>e\<in>set (hm_entries m). \<not> F e \<longrightarrow> P (fst e)) \<and>
      (\<forall>j. hm_buckets m' ! j = hm_buckets m ! j \<or> \<not> live (hm_buckets m' ! j)) \<and>
      (\<forall>j\<in>set ys. \<forall>k. b_key (hm_buckets m' ! j) = Some k \<longrightarrow> \<not> P k)"
proof (induction ys arbitrary: m)
  case Nil
  then show ?case by (intro exI [of _ m] exI [of _ "\<lambda>_. True"]) auto
next
  case (Cons i ys)
  then have "i \<in> set xs" by simp
  from remove_visit [of Q c u P, OF c Cons.prems(1) this Cons.prems(2)] obtain m1 F where
    m1: "visit c i (m, u) = (m1, u)" "hm_rep m1 xs"
    "hm_entries m1 = filter F (hm_entries m)" "\<forall>e\<in>set (hm_entries m). \<not> F e \<longrightarrow> P (fst e)"
    "\<forall>j. hm_buckets m1 ! j = hm_buckets m ! j \<or> \<not> live (hm_buckets m1 ! j)"
    "\<forall>k. b_key (hm_buckets m1 ! i) = Some k \<longrightarrow> \<not> P k" by metis
  have "list_all Q (hm_entries m1)" using Cons.prems(2) m1(3) by (auto simp: list_all_iff)
  from Cons.IH [OF m1(2) this] Cons.prems(3) obtain m2 G where
    m2: "fold (visit c) ys (m1, u) = (m2, u)" "hm_rep m2 xs"
    "hm_entries m2 = filter G (hm_entries m1)" "\<forall>e\<in>set (hm_entries m1). \<not> G e \<longrightarrow> P (fst e)"
    "\<forall>j. hm_buckets m2 ! j = hm_buckets m1 ! j \<or> \<not> live (hm_buckets m2 ! j)"
    "\<forall>j\<in>set ys. \<forall>k. b_key (hm_buckets m2 ! j) = Some k \<longrightarrow> \<not> P k" by auto
  show ?case
  proof (intro exI conjI)
    show "fold (visit c) (i # ys) (m, u) = (m2, u)" using m1(1) m2(1) by simp
    show "hm_entries m2 = filter (\<lambda>e. F e \<and> G e) (hm_entries m)" using m1(3) m2(3) by simp
    show "\<forall>e\<in>set (hm_entries m). \<not> (F e \<and> G e) \<longrightarrow> P (fst e)" using m1(3,4) m2(4) by auto
    show "\<forall>j. hm_buckets m2 ! j = hm_buckets m ! j \<or> \<not> live (hm_buckets m2 ! j)"
      using m1(5) m2(5) by metis
    show "\<forall>j\<in>set (i # ys). \<forall>k. b_key (hm_buckets m2 ! j) = Some k \<longrightarrow> \<not> P k"
      using m1(6) m2(5,6) by (metis live_def option.distinct(1) set_ConsD)
  qed (rule m2(2))
qed

lemma iterate_remove:
  assumes c: "\<And>k n v m. hm_inv m \<Longrightarrow> Q (k, n, v) \<Longrightarrow> c k n v (m, u) =
      (if P k then (the (hashmap_remove m k n), u) else (m, u))"
    and inv: "hm_inv m" and Q: "list_all Q (hm_entries m)"
  obtains m' where "hashmap_iterate c m u = Some (m', u)" "hm_inv m'"
    "hm_entries m' = filter (\<lambda>e. \<not> P (fst e)) (hm_entries m)"
proof -
  from inv obtain xs where rep: "hm_rep m xs" by (auto simp: hm_inv_iff)
  then have chain: "chain (hm_buckets m) (hm_first m) xs" by (simp add: hm_rep_def hm_shape_def)
  let ?I = "\<lambda>s. hm_rep (fst s) xs \<and> list_all Q (hm_entries (fst s)) \<and> snd s = u"
  have "iterate_from c (hm_first m) (m, u) = Some (fold (visit c) xs (m, u))"
  proof (rule iterate_from_fold [where I = ?I and ys = xs])
    fix i and s :: "hashmap \<times> 'a" assume i: "i \<in> set xs" and I: "?I s"
    obtain m0 where s: "s = (m0, u)" using I by (cases s) simp
    from I s have "hm_rep m0 xs" "list_all Q (hm_entries m0)" by simp_all
    from remove_visit [of Q c u P, OF c this(1) i this(2)] obtain m1 F where
      "visit c i (m0, u) = (m1, u)" "hm_rep m1 xs"
      "map b_next (hm_buckets m1) = map b_next (hm_buckets m0)"
      "hm_entries m1 = filter F (hm_entries m0)" by metis
    then show "?I (visit c i s) \<and> map b_next (hm_buckets (fst (visit c i s))) = map b_next (hm_buckets (fst s))"
      using I s by (auto simp: list_all_iff)
  qed (use rep Q chain in auto)
  moreover from remove_fold [of Q c u P, OF c rep Q subset_refl] obtain m' F where
    m': "fold (visit c) xs (m, u) = (m', u)" "hm_rep m' xs" "hm_entries m' = filter F (hm_entries m)"
    "\<forall>e\<in>set (hm_entries m). \<not> F e \<longrightarrow> P (fst e)"
    "\<forall>j\<in>set xs. \<forall>k. b_key (hm_buckets m' ! j) = Some k \<longrightarrow> \<not> P k" by auto
  have none: "\<not> P (fst e)" if "e \<in> set (hm_entries m')" for e
    using that m'(5) by (auto simp: rep_entries [OF m'(2)] set_entries_at entry_of_def live_def)
  have "filter F (hm_entries m) = filter (\<lambda>e. \<not> P (fst e)) (hm_entries m)"
    by (rule filter_cong [OF refl]) (use m'(3,4) none in auto)
  ultimately show thesis
    using m' by (intro that [of m']) (auto simp: hashmap_iterate_def intro: rep_invI)
qed

text \<open>
  \<^verbatim>\<open>hashmap_remove_free\<close> removes like \<^verbatim>\<open>hashmap_remove\<close> and calls the callback exactly
  when the key is there, on the stored key pointer, key size and value.
\<close>

theorem hashmap_remove_free_refines:
  assumes "hm_inv m" and "n \<le> length key"
  shows "\<exists>m'. hashmap_remove m key n = Some m' \<and>
    hashmap_remove_free m key n c usr =
      Some (m', case find (\<lambda>e. e_key e = take n key) (hm_entries m) of
                  None \<Rightarrow> usr
                | Some (old, old_size, w) \<Rightarrow> c old old_size w usr)"
proof -
  from assms(1) obtain xs where rep: "hm_rep m xs" by (auto simp: hm_inv_iff)
  show ?thesis
  proof (rule lookup_rep [OF rep assms(2)], goal_cases)
    case (1 i)
    from present_get [OF rep refl 1(2,3,4)] 1 show ?thesis
      by (auto simp: hashmap_remove_def hashmap_remove_free_def Let_def live_def entry_of_def
          rep_entries [OF rep])
  next
    case (2 i)
    from absent_find [OF 2(5)] 2 show ?thesis
      by (simp add: hashmap_remove_def hashmap_remove_free_def)
  qed
qed

section \<open>The interface\<close>

lemma find_snoc:
  "find P (xs @ [x]) = (case find P xs of None \<Rightarrow> if P x then Some x else None | Some y \<Rightarrow> Some y)"
  by (induction xs) auto

lemma find_value_update:
  "map_option e_value (find (\<lambda>e. e_key e = k)
     (map (\<lambda>e. if e_key e = k' then (fst e, fst (snd e), v) else e) es)) =
   (if k = k' \<and> k \<in> e_key ` set es then Some v
    else map_option e_value (find (\<lambda>e. e_key e = k) es))"
  by (induction es) (auto split: if_splits)

lemma ents_get_set:
  "ents_get (ents_set key n v es) k =
     (if k = take n key then Some v else ents_get es k)"
proof (cases "take n key \<in> e_key ` set es")
  case True
  then show ?thesis by (cases "k = take n key") (simp_all add: ents_set_def ents_get_def find_value_update)
next
  case False
  then show ?thesis
    using absent_find [OF False]
    by (auto simp: ents_set_def ents_get_def find_snoc split: option.split)
qed

lemma ents_get_remove:
  "ents_get (ents_remove k es) k' = (if k = k' then None else ents_get es k')"
  unfolding ents_get_def ents_remove_def by (induction es) auto

text \<open>
  What the users of the map rely on, over any implementation with entries in insertion order:
  the operations return, keep the invariant, and act on the entries as specified.
\<close>

locale ordered_map =
  fixes inv :: "'m \<Rightarrow> bool"
    and ents :: "'m \<Rightarrow> entry list"
    and put :: "'m \<Rightarrow> string \<Rightarrow> nat \<Rightarrow> 64 word \<Rightarrow> 'm option"
    and get :: "'m \<Rightarrow> string \<Rightarrow> nat \<Rightarrow> (bool \<times> 64 word) option"
    and del :: "'m \<Rightarrow> string \<Rightarrow> nat \<Rightarrow> 'm option"
  assumes distinct_keys: "inv m \<Longrightarrow> distinct (map e_key (ents m))"
    and put_law: "inv m \<Longrightarrow> n \<le> length key \<Longrightarrow>
      \<exists>m'. put m key n v = Some m' \<and> inv m' \<and> ents m' = ents_set key n v (ents m)"
    and get_law: "inv m \<Longrightarrow> n \<le> length key \<Longrightarrow>
      get m key n = Some (case ents_get (ents m) (take n key) of None \<Rightarrow> (False, 0) | Some v \<Rightarrow> (True, v))"
    and del_law: "inv m \<Longrightarrow> n \<le> length key \<Longrightarrow>
      \<exists>m'. del m key n = Some m' \<and> inv m' \<and> ents m' = ents_remove (take n key) (ents m)"
begin

lemma put_inv: "inv m \<Longrightarrow> n \<le> length key \<Longrightarrow> put m key n v = Some m' \<Longrightarrow> inv m'"
  using put_law [of m n key v] by auto

lemma del_inv: "inv m \<Longrightarrow> n \<le> length key \<Longrightarrow> del m key n = Some m' \<Longrightarrow> inv m'"
  using del_law [of m n key] by auto

lemma get_put:
  "inv m \<Longrightarrow> n \<le> length key \<Longrightarrow> n' \<le> length key' \<Longrightarrow> put m key n v = Some m' \<Longrightarrow>
   get m' key' n' = (if take n' key' = take n key then Some (True, v) else get m key' n')"
  using put_law [of m n key v] by (auto simp: get_law ents_get_set)

lemma get_del:
  "inv m \<Longrightarrow> n \<le> length key \<Longrightarrow> n' \<le> length key' \<Longrightarrow> del m key n = Some m' \<Longrightarrow>
   get m' key' n' = (if take n' key' = take n key then Some (False, 0) else get m key' n')"
  using del_law [of m n key] by (auto simp: get_law ents_get_remove)

end

interpretation hm: ordered_map hm_inv hm_entries hashmap_set hashmap_get hashmap_remove
  by unfold_locales
    (auto simp: inv_distinct_keys hashmap_set_law hashmap_get_law hashmap_remove_law)

text \<open>
  Claim C16. \<^verbatim>\<open>hashmap_set\<close> on a well-formed map returns (the probe loop ends, also when the map is
  rebuilt first), keeps the map well-formed, and updates the value of the key in place or
  appends a new entry: the list of entries changes exactly as the abstract update says.
\<close>

theorem hashmap_set_refines:
  assumes "hm_inv m" and "n \<le> length key"
  shows "\<exists>m'. hashmap_set m key n v = Some m' \<and> hm_inv m' \<and>
    hm_entries m' = ents_set key n v (hm_entries m)"
  by (rule hm.put_law [OF assms])

text \<open>
  Claim C18. \<^verbatim>\<open>hashmap_get\<close> returns on a well-formed map, says whether the key is present and
  delivers its value, and delivers 0 for a key that is not there.
\<close>

theorem hashmap_get_refines:
  assumes "hm_inv m" and "n \<le> length key"
  shows "hashmap_get m key n =
    Some (case ents_get (hm_entries m) (take n key) of None \<Rightarrow> (False, 0) | Some v \<Rightarrow> (True, v))"
  by (rule hm.get_law [OF assms])

text \<open>
  Claim C17. \<^verbatim>\<open>hashmap_remove\<close> returns on a well-formed map, keeps it well-formed, and takes
  exactly the entry of the key out of the list of entries, leaving the others in their order.
\<close>

theorem hashmap_remove_refines:
  assumes "hm_inv m" and "n \<le> length key"
  shows "\<exists>m'. hashmap_remove m key n = Some m' \<and> hm_inv m' \<and>
    hm_entries m' = ents_remove (take n key) (hm_entries m)"
  by (rule hm.del_law [OF assms])

section \<open>Witnesses\<close>

text \<open>A map with one entry, made by the code; the properties are applied to it.\<close>

lemma one_entry: "\<exists>m. hm_inv m \<and> hm_entries m = [(''key'', 3, 7)]"
proof -
  from hm.put_law [OF hashmap_create_correct(1), of 3 "''key''" 7] obtain m where
    "hm_inv m" "hm_entries m = ents_set ''key'' 3 7 []" by (auto simp: hashmap_create_correct(2))
  then show ?thesis by (auto simp: ents_set_def)
qed

theorem hashmap_size_entries_witness: "\<exists>m. hm_entries m = [(''key'', 3, 7)] \<and> hashmap_size m = 1"
proof -
  obtain m where m: "hm_inv m" "hm_entries m = [(''key'', 3, 7)]" using one_entry by blast
  from hashmap_size_entries [OF m(1)] m(2) show ?thesis by auto
qed

theorem hashmap_set_refines_witness:
  "\<exists>m m'. hm_entries m = [(''key'', 3, 7)] \<and> hashmap_set m ''key'' 3 9 = Some m' \<and>
     hm_entries m' = [(''key'', 3, 9)]"
proof -
  obtain m where m: "hm_inv m" "hm_entries m = [(''key'', 3, 7)]" using one_entry by blast
  from hashmap_set_refines [OF m(1), of 3 "''key''" 9] obtain m' where
    "hashmap_set m ''key'' 3 9 = Some m'" "hm_entries m' = ents_set ''key'' 3 9 (hm_entries m)" by auto
  with m(2) show ?thesis by (intro exI [of _ m] exI [of _ m']) (simp add: ents_set_def)
qed

theorem hashmap_get_refines_witness:
  "\<exists>m. hashmap_get m ''keys'' 3 = Some (True, 7) \<and> hashmap_get m ''keys'' 4 = Some (False, 0)"
proof -
  obtain m where m: "hm_inv m" "hm_entries m = [(''key'', 3, 7)]" using one_entry by blast
  from hashmap_get_refines [OF m(1), of 3 "''keys''"] hashmap_get_refines [OF m(1), of 4 "''keys''"] m(2)
  show ?thesis by (intro exI [of _ m]) (simp add: ents_get_def)
qed

theorem hashmap_remove_refines_witness:
  "\<exists>m m'. hm_entries m = [(''key'', 3, 7)] \<and> hashmap_remove m ''key'' 3 = Some m' \<and> hm_entries m' = []"
proof -
  obtain m where m: "hm_inv m" "hm_entries m = [(''key'', 3, 7)]" using one_entry by blast
  from hashmap_remove_refines [OF m(1), of 3 "''key''"] obtain m' where
    "hashmap_remove m ''key'' 3 = Some m'" "hm_entries m' = ents_remove (take 3 ''key'') (hm_entries m)" by auto
  with m(2) show ?thesis by (intro exI [of _ m] exI [of _ m']) (simp add: ents_remove_def)
qed

theorem hashmap_get_set_refines_witness:
  "\<exists>m m'. hm_entries m = [(''key'', 3, 7)] \<and> hashmap_get_set m ''key'' 3 9 = Some (True, 7, m') \<and>
     hm_entries m' = hm_entries m"
proof -
  obtain m where m: "hm_inv m" "hm_entries m = [(''key'', 3, 7)]" using one_entry by blast
  from hashmap_get_set_refines [OF m(1), of 3 "''key''" 9] m(2) show ?thesis
    by - (rule exI [where x = m], auto simp: ents_get_def)
qed

theorem hashmap_set_free_refines_witness:
  "\<exists>m m'. hm_entries m = [(''key'', 3, 7)] \<and>
     hashmap_set_free m ''key!'' 3 9 (\<lambda>k n v u. (k, v) # u) [] = Some (m', [(''key'', 7)]) \<and>
     hm_entries m' = [(''key!'', 3, 9)]"
proof -
  obtain m where m: "hm_inv m" "hm_entries m = [(''key'', 3, 7)]" using one_entry by blast
  from hashmap_set_free_refines [OF m(1), of 3 "''key!''" 9 "\<lambda>k n v u. (k, v) # u" "[]"] obtain m' where
    "hm_entries m' = ents_replace ''key!'' 3 9 (hm_entries m)"
    "hashmap_set_free m ''key!'' 3 9 (\<lambda>k n v u. (k, v) # u) [] =
      Some (m', case find (\<lambda>e. e_key e = take 3 ''key!'') (hm_entries m) of
                  None \<Rightarrow> [] | Some (old, old_size, w) \<Rightarrow> (old, w) # [])" by auto
  with m(2) show ?thesis by (intro exI [of _ m] exI [of _ m']) (simp add: ents_replace_def)
qed

theorem hashmap_remove_free_refines_witness:
  "\<exists>m m'. hm_entries m = [(''key'', 3, 7)] \<and>
     hashmap_remove_free m ''key'' 3 (\<lambda>k n v u. (k, v) # u) [] = Some (m', [(''key'', 7)])"
proof -
  obtain m where m: "hm_inv m" "hm_entries m = [(''key'', 3, 7)]" using one_entry by blast
  from hashmap_remove_free_refines [OF m(1), of 3 "''key''" "\<lambda>k n v u. (k, v) # u" "[]"] m(2)
  show ?thesis by - (rule exI [where x = m], auto)
qed

theorem hashmap_iterate_order_witness:
  "\<exists>m. hashmap_iterate (\<lambda>k n v s. (fst s, snd s @ [(k, v)])) m [] = Some (m, [(''key'', 7)])"
proof -
  obtain m where m: "hm_inv m" "hm_entries m = [(''key'', 3, 7)]" using one_entry by blast
  from hashmap_iterate_order [OF m(1), of "\<lambda>k n v s. (fst s, snd s @ [(k, v)])" "[]"] m(2)
  show ?thesis by (intro exI [of _ m]) simp
qed

end
