(* ===== verification/Map_Operations.thy ===== *)
theory Map_Operations
  imports Hashmap_Correct "HOL-Library.AList"
begin

text \<open>
  hashmap/map_operations.c: the map from paths to numbers. A path is stored under a printed key
  made of its length less one, the code of its last character and the path; the key size given
  to the hash map leaves the last character of the path out. The naming server maps paths to
  storage servers this way, a storage server maps paths to semaphore indices.
\<close>

section \<open>Keys\<close>

text \<open>
  \<^verbatim>\<open>sprintf(temp, "%ld %d %s", n, key[strlen(key) - 1], key)\<close> into a buffer of \<^verbatim>\<open>PATH_MAX + 5\<close>
  bytes; on an empty path the expression reads in front of the string.
\<close>

definition sprintf_key :: "nat \<Rightarrow> string \<Rightarrow> fault + string" where
  "sprintf_key n key =
     (if key = [] then Inl OutOfBounds
      else let temp = show_int (int n) @ '' '' @ show_int (schar (last key)) @ '' '' @ key
           in if length temp < PATH_MAX + 5 then Inr temp else Inl BufferOverflow)"

definition format_key :: "string \<Rightarrow> fault + string" where
  "format_key key = sprintf_key (length key - 1) key"

section \<open>set_value and get_value\<close>

text \<open>
  An \<^verbatim>\<open>int\<close> converted to \<^verbatim>\<open>uintptr_t\<close> is sign-extended to 64 bits; the way back keeps the low 32.
\<close>

definition int_to_uintptr :: "int \<Rightarrow> 64 word" where
  "int_to_uintptr v = word_of_int v"

definition uintptr_to_int :: "64 word \<Rightarrow> int" where
  "uintptr_to_int w = sint (ucast w :: 32 word)"

definition set_value :: "hashmap \<Rightarrow> string \<Rightarrow> int \<Rightarrow> fault + hashmap" where
  "set_value m key val =
     fbind (format_key key) (\<lambda>temp.
       returns (hashmap_set m temp (length temp - 1) (int_to_uintptr val)))"

definition get_value :: "hashmap \<Rightarrow> string \<Rightarrow> fault + int" where
  "get_value m key =
     fbind (format_key key) (\<lambda>temp.
       fbind (returns (hashmap_get m temp (length temp - 1))) (\<lambda>(found, result).
         Inr (if found then uintptr_to_int result else - 1)))"

section \<open>Paths at or below a path\<close>

text \<open>
  \<^verbatim>\<open>strncmp(temp, path, strlen(path)) == 0\<close>, followed by the test that the next character of
  \<^verbatim>\<open>temp\<close> is its end or a slash.
\<close>

definition at_or_below :: "string \<Rightarrow> string \<Rightarrow> bool" where
  "at_or_below path temp \<longleftrightarrow>
     take (length path) temp = path \<and>
     (length temp = length path \<or> temp ! length path = CHR ''/'')"

record arr_of_paths =
  ap_path :: string
  ap_paths :: "string list"
  ap_ss_num :: int

text \<open>
  The callback \<^verbatim>\<open>get_paths_\<close> and the walk; the slots \<^verbatim>\<open>paths[0 .. index - 1]\<close> written so far are
  the list \<open>ap_paths\<close>. There are \<^verbatim>\<open>MAX_ACC_PATHS\<close> slots. Once a fault has happened the rest of
  the walk is void.
\<close>

definition get_paths_cb ::
  "string \<Rightarrow> nat \<Rightarrow> 64 word \<Rightarrow> hashmap \<times> (fault + arr_of_paths) \<Rightarrow> hashmap \<times> (fault + arr_of_paths)" where
  "get_paths_cb key ksize val s =
     (fst s, fbind (snd s) (\<lambda>arr.
        case scan_dds key of
          None \<Rightarrow> Inl Uninitialised
        | Some temp \<Rightarrow>
            if at_or_below (ap_path arr) temp
            then if length (ap_paths arr) < MAX_ACC_PATHS
                 then Inr (arr\<lparr>ap_paths := ap_paths arr @ [temp]\<rparr>)
                 else Inl OutOfBounds
            else Inr arr))"

definition get_paths :: "hashmap \<Rightarrow> string \<Rightarrow> fault + arr_of_paths" where
  "get_paths m path =
     fbind (returns (hashmap_iterate get_paths_cb m
       (Inr \<lparr>ap_path = path, ap_paths = [], ap_ss_num = - 1\<rparr>))) snd"

definition remove_entry_cb ::
  "string \<Rightarrow> string \<Rightarrow> nat \<Rightarrow> 64 word \<Rightarrow> hashmap \<times> (fault + unit) \<Rightarrow> hashmap \<times> (fault + unit)" where
  "remove_entry_cb path key ksize val s =
     (case snd s of
        Inl e \<Rightarrow> s
      | Inr _ \<Rightarrow>
          (case scan_dds key of
             None \<Rightarrow> (fst s, Inl Uninitialised)
           | Some temp \<Rightarrow>
               if at_or_below path temp
               then (case hashmap_remove (fst s) key ksize of
                       None \<Rightarrow> (fst s, Inl Diverges)
                     | Some m \<Rightarrow> (m, Inr ()))
               else s))"

definition remove_entry :: "hashmap \<Rightarrow> string \<Rightarrow> fault + hashmap" where
  "remove_entry m path =
     fbind (returns (hashmap_iterate (remove_entry_cb path) m (Inr ()))) (\<lambda>(m, r).
       fbind r (\<lambda>_. Inr m))"

text \<open>The lines \<^verbatim>\<open>print_map\<close> prints: the path and the number.\<close>

definition print_map_cb ::
  "string \<Rightarrow> nat \<Rightarrow> 64 word \<Rightarrow> hashmap \<times> (fault + (string \<times> int) list) \<Rightarrow>
   hashmap \<times> (fault + (string \<times> int) list)" where
  "print_map_cb key ksize val s =
     (fst s, fbind (snd s) (\<lambda>out.
        case scan_dds key of
          None \<Rightarrow> Inl Uninitialised
        | Some temp \<Rightarrow> Inr (out @ [(temp, uintptr_to_int val)])))"

definition print_map :: "hashmap \<Rightarrow> fault + (string \<times> int) list" where
  "print_map m = fbind (returns (hashmap_iterate print_map_cb m (Inr []))) snd"

section \<open>add_paths_to_list\<close>

text \<open>
  The loop of \<^verbatim>\<open>add_paths_to_list\<close>. Its counter shadows the position of the last slash computed
  before, so \<^verbatim>\<open>arr->paths[i] + i + 1\<close> skips \<^verbatim>\<open>i + 1\<close> characters of the \<^verbatim>\<open>i\<close>-th path; past the
  terminator the buffer was never written. The number stored is \<^verbatim>\<open>arr->ss_num\<close>.
\<close>

fun add_paths_loop :: "arr_of_paths \<Rightarrow> string \<Rightarrow> nat \<Rightarrow> string list \<Rightarrow> hashmap \<Rightarrow> fault + hashmap" where
  "add_paths_loop arr current_dir i [] m = Inr m"
| "add_paths_loop arr current_dir i (path # rest) m =
     (if length path < i + 1 then Inl Uninitialised
      else let temp = current_dir @ ''/'' @ drop (i + 1) path
           in if PATH_MAX + 5 \<le> length temp then Inl BufferOverflow
              else fbind (set_value m temp (ap_ss_num arr))
                     (add_paths_loop arr current_dir (i + 1) rest))"

text \<open>
  The search for the last slash runs off the front of a folder name that has none; its result is
  not used again.
\<close>

definition add_paths_to_list :: "hashmap \<Rightarrow> int \<Rightarrow> string \<Rightarrow> string \<Rightarrow> fault + hashmap" where
  "add_paths_to_list m ss_num current_dir folder_name =
     fbind (get_paths m folder_name) (\<lambda>arr.
       if CHR ''/'' \<notin> set folder_name then Inl OutOfBounds
       else add_paths_loop arr current_dir 0 (ap_paths arr) m)"

end
