(* ===== verification/Map_Operations_Correct.thy ===== *)
theory Map_Operations_Correct
  imports Map_Operations "HOL-Library.Sublist"
begin

text \<open>
  What the path maps promise: the content is an association list from paths to numbers in
  insertion order; setting, looking up, listing and removing paths act on that list.
\<close>

section \<open>Printed keys\<close>

definition key_path :: "string \<Rightarrow> string" where
  "key_path k =
     drop 1 (dropWhile (\<lambda>c. c \<noteq> CHR '' '') (drop 1 (dropWhile (\<lambda>c. c \<noteq> CHR '' '') k)))"

lemma sprintf_key_Inr:
  "sprintf_key n p = Inr t \<longleftrightarrow>
     p \<noteq> [] \<and> t = show_int (int n) @ '' '' @ show_int (schar (last p)) @ '' '' @ p \<and>
     length t < PATH_MAX + 5"
  by (auto simp: sprintf_key_def Let_def)

lemma dropWhile_separator:
  "c \<notin> set a \<Longrightarrow> dropWhile (\<lambda>x. x \<noteq> c) (a @ c # b) = c # b"
  by (subst dropWhile_append2) auto

lemma key_path_sprintf: "sprintf_key n p = Inr t \<Longrightarrow> key_path t = p"
  by (auto simp: sprintf_key_Inr key_path_def dropWhile_separator show_int_no_space)

lemma format_key_path: "format_key p = Inr t \<Longrightarrow> key_path t = p"
  unfolding format_key_def by (rule key_path_sprintf)

text \<open>
  Without its last character the printed key still determines the path: the code of the
  missing character stands in front.
\<close>

lemma printed_prefix_inj:
  assumes t: "sprintf_key n p = Inr t" and u: "sprintf_key k q = Inr u" and eq: "butlast t = butlast u"
  shows "p = q"
proof -
  have pq: "p \<noteq> []" "q \<noteq> []" using t u by (auto simp: sprintf_key_Inr)
  have butlast: "butlast (a @ '' '' @ b @ '' '' @ r) = a @ CHR '' '' # (b @ CHR '' '' # butlast r)"
    if "r \<noteq> []" for a b r :: string
    using that by (simp add: butlast_append)
  have t': "t = show_int (int n) @ '' '' @ show_int (schar (last p)) @ '' '' @ p"
    and u': "u = show_int (int k) @ '' '' @ show_int (schar (last q)) @ '' '' @ q"
    using t u by (auto simp: sprintf_key_Inr)
  have "show_int (int n) @ CHR '' '' # (show_int (schar (last p)) @ CHR '' '' # butlast p) =
      show_int (int k) @ CHR '' '' # (show_int (schar (last q)) @ CHR '' '' # butlast q)"
    using eq unfolding t' u' butlast [OF pq(1)] butlast [OF pq(2)] .
  then have "schar (last p) = schar (last q)" "butlast p = butlast q"
    by (auto simp: split_at_separator show_int_no_space show_int_inj)
  then show "p = q" using pq by (metis append_butlast_last_id schar_inj)
qed

lemma printed_inj:
  assumes "sprintf_key n p = Inr t" and "sprintf_key k q = Inr t"
  shows "p = q"
  using assms by (metis key_path_sprintf)

definition path_enc :: "string \<Rightarrow> (string \<times> nat) option" where
  "path_enc p = (case format_key p of Inl e \<Rightarrow> None | Inr t \<Rightarrow> Some (t, length t - 1))"

lemma path_enc_Some: "path_enc p = Some (t, n) \<longleftrightarrow> format_key p = Inr t \<and> n = length t - 1"
  by (auto simp: path_enc_def split: sum.split)

text \<open>
  A map used through printed keys: two paths never get in each other's way. The size handed to
  the map may leave bytes of the printed key out as long as the rest determines the path.
\<close>

locale keyed_map = ordered_map +
  fixes enc :: "string \<Rightarrow> (string \<times> nat) option"
  assumes enc_size: "enc p = Some (t, n) \<Longrightarrow> n \<le> length t"
    and enc_inj: "enc p = Some (t, n) \<Longrightarrow> enc q = Some (u, k) \<Longrightarrow> take n t = take k u \<Longrightarrow> p = q"
begin

lemma enc_eq: "enc p = Some (t, n) \<Longrightarrow> enc q = Some (u, k) \<Longrightarrow> take k u = take n t \<longleftrightarrow> q = p"
  using enc_inj by fastforce

lemma put_returns:
  "inv m \<Longrightarrow> enc p = Some (t, n) \<Longrightarrow> \<exists>m'. put m t n v = Some m' \<and> inv m'"
  using put_law enc_size by blast

lemma lookup_put:
  "inv m \<Longrightarrow> enc p = Some (t, n) \<Longrightarrow> enc q = Some (u, k) \<Longrightarrow> put m t n v = Some m' \<Longrightarrow>
   get m' u k = (if q = p then Some (True, v) else get m u k)"
  using get_put [of m n t k u v m'] enc_size enc_eq by simp

lemma lookup_del:
  "inv m \<Longrightarrow> enc p = Some (t, n) \<Longrightarrow> enc q = Some (u, k) \<Longrightarrow> del m t n = Some m' \<Longrightarrow>
   get m' u k = (if q = p then Some (False, 0) else get m u k)"
  using get_del [of m n t k u m'] enc_size enc_eq by simp

end

lemma take_butlast: "take (length t - 1) t = butlast t"
  by (simp add: butlast_conv_take)

interpretation pm: keyed_map hm_inv hm_entries hashmap_set hashmap_get hashmap_remove path_enc
proof (unfold_locales, goal_cases)
  case (1 p t n)
  then show ?case by (simp add: path_enc_Some)
next
  case (2 p t n q u k)
  then have "butlast t = butlast u" by (simp add: path_enc_Some butlast_conv_take)
  with 2 printed_prefix_inj show ?case by (auto simp: path_enc_Some format_key_def)
qed

section \<open>Numbers\<close>

lemma uintptr_roundtrip:
  "- (2 ^ 31) \<le> v \<Longrightarrow> v < 2 ^ 31 \<Longrightarrow> uintptr_to_int (int_to_uintptr v) = v"
proof -
  assume "- (2 ^ 31) \<le> v" "v < 2 ^ 31"
  moreover have "uintptr_to_int (int_to_uintptr v) = signed_take_bit 31 v"
    unfolding uintptr_to_int_def int_to_uintptr_def
    by transfer (simp add: signed_take_bit_take_bit min_def)
  ultimately show ?thesis by (simp add: signed_take_bit_int_eq_self)
qed

section \<open>The association list of a path map\<close>

fun path_entry :: "entry \<Rightarrow> string \<times> int" where
  "path_entry (k, n, v) = (key_path k, uintptr_to_int v)"

fun path_entry_ok :: "entry \<Rightarrow> bool" where
  "path_entry_ok (k, n, v) \<longleftrightarrow> format_key (key_path k) = Inr k \<and> n = length k - 1"

definition pm_entries :: "hashmap \<Rightarrow> (string \<times> int) list" where
  "pm_entries m = map path_entry (hm_entries m)"

definition pm_inv :: "hashmap \<Rightarrow> bool" where
  "pm_inv m \<longleftrightarrow> hm_inv m \<and> list_all path_entry_ok (hm_entries m)"

lemma path_entry_key:
  assumes "path_entry_ok e" and "format_key p = Inr t"
  shows "e_key e = take (length t - 1) t \<longleftrightarrow> fst (path_entry e) = p"
proof (cases e)
  case (fields k n v)
  with assms show ?thesis
    using pm.enc_eq [of p t "length t - 1" "key_path k" k "length k - 1"] path_enc_Some by simp
qed

lemma pm_inv_distinct: "pm_inv m \<Longrightarrow> distinct (map fst (pm_entries m))"
proof -
  assume inv: "pm_inv m"
  let ?es = "hm_entries m"
  have dist: "distinct ?es" and inj: "inj_on e_key (set ?es)"
    using inv inv_distinct_keys [of m] by (auto simp: pm_inv_def distinct_map)
  have "inj_on (fst \<circ> path_entry) (set ?es)"
  proof (rule inj_onI)
    fix x y assume xy: "x \<in> set ?es" "y \<in> set ?es" "(fst \<circ> path_entry) x = (fst \<circ> path_entry) y"
    obtain k n v where y: "y = (k, n, v)" by (cases y)
    have "path_entry_ok x" "path_entry_ok y" using inv xy by (auto simp: pm_inv_def list_all_iff)
    then have "e_key x = e_key y"
      using path_entry_key [of x "key_path k" k] xy(3) y by simp
    with inj xy(1,2) show "x = y" by (auto dest: inj_onD)
  qed
  with dist show ?thesis by (simp add: pm_entries_def distinct_map comp_def)
qed

lemma pm_entries_get:
  assumes "pm_inv m" and "format_key p = Inr t"
  shows "ents_get (hm_entries m) (take (length t - 1) t) =
    map_option e_value (find (\<lambda>e. fst (path_entry e) = p) (hm_entries m))"
  using assms path_entry_key [OF _ assms(2)]
  unfolding ents_get_def pm_inv_def list_all_iff
  by (intro arg_cong [where f = "map_option e_value"] find_cong) auto

lemma map_of_find: "map_of xs k = map_option snd (find (\<lambda>x. fst x = k) xs)"
  by (induction xs) auto

lemma find_map: "find P (map f xs) = map_option f (find (P \<circ> f) xs)"
  by (induction xs) auto

lemma update_distinct:
  "distinct (map fst xs) \<Longrightarrow>
   AList.update p v xs =
     (if p \<in> fst ` set xs then map (\<lambda>e. if fst e = p then (p, v) else e) xs else xs @ [(p, v)])"
proof (induction xs)
  case (Cons x xs)
  then have "fst x = p \<Longrightarrow> map (\<lambda>e. if fst e = p then (p, v) else e) xs = xs"
    by (intro map_idI) (auto simp: image_iff)
  with Cons show ?case by (cases x) auto
qed simp

text \<open>The two lists: updating the entries updates the association list.\<close>

lemma path_entry_map: "e_key x = k \<Longrightarrow> path_entry (fst x, fst (snd x), w) = (fst (path_entry x), uintptr_to_int w)"
  by (cases x) simp

lemma ents_set_paths:
  assumes inv: "pm_inv m" and t: "format_key p = Inr t"
  shows "map path_entry (ents_set t (length t - 1) w (hm_entries m)) =
      AList.update p (uintptr_to_int w) (pm_entries m)"
    and "list_all path_entry_ok (ents_set t (length t - 1) w (hm_entries m))"
proof -
  let ?es = "hm_entries m" and ?k = "take (length t - 1) t"
  have key: "e_key e = ?k \<longleftrightarrow> fst (path_entry e) = p" if "e \<in> set ?es" for e
    by (rule path_entry_key [OF _ t]) (use inv that in \<open>auto simp: pm_inv_def list_all_iff\<close>)
  have new: "path_entry (t, length t - 1, w) = (p, uintptr_to_int w)" "path_entry_ok (t, length t - 1, w)"
    using format_key_path [OF t] t by simp_all
  have mem: "?k \<in> e_key ` set ?es \<longleftrightarrow> p \<in> fst ` set (pm_entries m)"
  proof -
    have "?k \<in> e_key ` set ?es \<longleftrightarrow> (\<exists>e\<in>set ?es. e_key e = ?k)"
      unfolding image_iff by (rule bex_cong [OF refl]) (rule eq_commute)
    also have "\<dots> \<longleftrightarrow> (\<exists>e\<in>set ?es. fst (path_entry e) = p)" using key by (rule bex_cong [OF refl])
    also have "\<dots> \<longleftrightarrow> p \<in> fst ` set (pm_entries m)"
      by (simp only: pm_entries_def image_iff set_map bex_simps) (metis (no_types))
    finally show ?thesis .
  qed
  show "map path_entry (ents_set t (length t - 1) w ?es) =
      AList.update p (uintptr_to_int w) (pm_entries m)"
    unfolding update_distinct [OF pm_inv_distinct [OF inv]] ents_set_def mem
    using new(1) key by (auto simp: pm_entries_def path_entry_map)
  show "list_all path_entry_ok (ents_set t (length t - 1) w ?es)"
    using inv new(2) by (auto simp: ents_set_def pm_inv_def list_all_iff)
qed

lemma set_value_law:
  assumes inv: "pm_inv m" and t: "format_key p = Inr t"
  shows "\<exists>m'. set_value m p v = Inr m' \<and> pm_inv m' \<and>
    pm_entries m' = AList.update p (uintptr_to_int (int_to_uintptr v)) (pm_entries m)"
proof -
  have "hm_inv m" using inv by (simp add: pm_inv_def)
  from hm.put_law [OF this, of "length t - 1" t "int_to_uintptr v"] obtain m' where
    "hashmap_set m t (length t - 1) (int_to_uintptr v) = Some m'" "hm_inv m'"
    "hm_entries m' = ents_set t (length t - 1) (int_to_uintptr v) (hm_entries m)" by auto
  with ents_set_paths [OF inv t] t show ?thesis
    by (auto simp: set_value_def pm_inv_def pm_entries_def)
qed

lemma get_value_law:
  assumes inv: "pm_inv m" and t: "format_key p = Inr t"
  shows "get_value m p = Inr (case map_of (pm_entries m) p of None \<Rightarrow> - 1 | Some v \<Rightarrow> v)"
proof -
  have "hm_inv m" using inv by (simp add: pm_inv_def)
  have snd_path: "snd (path_entry e) = uintptr_to_int (e_value e)" for e by (cases e) simp
  from hm.get_law [OF \<open>hm_inv m\<close>, of "length t - 1" t] show ?thesis
    unfolding get_value_def t pm_entries_get [OF inv t]
    by (auto simp: pm_entries_def map_of_find find_map comp_def snd_path split: option.split)
qed

text \<open>When a path can be stored: it is not empty and its printed key fits the buffer.\<close>

lemma show_nat_length: "n < 10 ^ k \<Longrightarrow> 0 < k \<Longrightarrow> length (show_nat n) \<le> k"
proof (induction k arbitrary: n)
  case (Suc k)
  show ?case
  proof (cases "n < 10")
    case False
    then have "0 < k" "n div 10 < 10 ^ k" using Suc.prems by (cases k; simp add: less_mult_imp_div_less mult.commute)+
    with Suc.IH False show ?thesis by (subst show_nat.simps) simp
  qed (simp add: show_nat.simps)
qed simp

lemma schar_length: "length (show_int (schar c)) \<le> 4"
proof -
  have "0 \<le> (of_char c :: int)" "(of_char c :: int) < 256" by (simp_all add: of_char_def)
  then have "- 128 \<le> schar c" "schar c < 128" by (auto simp: schar_def)
  then have "length (show_nat (nat (- schar c))) \<le> 3" "length (show_nat (nat (schar c))) \<le> 3"
    by (intro show_nat_length; simp)+
  then show ?thesis by (simp add: show_int_def)
qed

lemma format_key_fits:
  assumes "p \<noteq> []" and "length p \<le> 4090"
  shows "\<exists>t. format_key p = Inr t"
proof -
  have "length (show_int (int (length p - 1))) \<le> 4"
    using assms show_nat_length [of "length p - 1" 4] by (simp add: show_int_def)
  then show ?thesis
    using assms schar_length [of "last p"] by (simp add: format_key_def sprintf_key_def Let_def)
qed

section \<open>The properties of the path maps\<close>

lemma entries_create: "pm_inv hashmap_create" "pm_entries hashmap_create = []"
  using hashmap_create_correct by (simp_all add: pm_inv_def pm_entries_def)

text \<open>Paths without white space are scanned back as they were printed.\<close>

definition plain :: "string \<Rightarrow> bool" where
  "plain p \<longleftrightarrow> p \<noteq> [] \<and> (\<forall>c\<in>set p. \<not> is_space c)"

lemma scan_format_key: "format_key p = Inr t \<Longrightarrow> plain p \<Longrightarrow> scan_dds t = Some p"
  unfolding format_key_def sprintf_key_Inr plain_def using scan_dds_printed by blast

definition plain_map :: "hashmap \<Rightarrow> bool" where
  "plain_map m \<longleftrightarrow> pm_inv m \<and> list_all (\<lambda>(p, v). plain p) (pm_entries m)"

definition plain_entry :: "entry \<Rightarrow> bool" where
  "plain_entry e \<longleftrightarrow> path_entry_ok e \<and> plain (fst (path_entry e))"

lemma plain_map_entries: "plain_map m \<longleftrightarrow> hm_inv m \<and> list_all plain_entry (hm_entries m)"
  by (auto simp: plain_map_def pm_inv_def plain_entry_def pm_entries_def list_all_iff case_prod_unfold)

lemma plain_entry_scan: "plain_entry (k, n, v) \<Longrightarrow> scan_dds k = Some (key_path k) \<and> n \<le> length k"
  using scan_format_key by (simp add: plain_entry_def)

lemma remove_entry_law:
  assumes "plain_map m"
  shows "\<exists>m'. remove_entry m path = Inr m' \<and> plain_map m' \<and>
    pm_entries m' = filter (\<lambda>(p, v). \<not> at_or_below path p) (pm_entries m)"
proof -
  let ?P = "\<lambda>k. at_or_below path (key_path k)"
  have inv: "hm_inv m" "list_all plain_entry (hm_entries m)"
    using assms by (simp_all add: plain_map_entries)
  have c: "remove_entry_cb path k n v (m, Inr ()) =
      (if ?P k then (the (hashmap_remove m k n), Inr ()) else (m, Inr ()))"
    if "hm_inv m" "plain_entry (k, n, v)" for k n v m
    using plain_entry_scan [OF that(2)] hm.del_law [OF that(1), of n k]
    by (auto simp: remove_entry_cb_def)
  obtain m' where m': "hashmap_iterate (remove_entry_cb path) m (Inr ()) = Some (m', Inr ())"
    "hm_inv m'" "hm_entries m' = filter (\<lambda>e. \<not> ?P (fst e)) (hm_entries m)"
    using iterate_remove [of plain_entry "remove_entry_cb path" "Inr ()" ?P, OF c inv] by metis
  have "fst (path_entry e) = key_path (fst e)" for e by (cases e) simp
  then have "pm_entries m' = filter (\<lambda>(p, v). \<not> at_or_below path p) (pm_entries m)"
    unfolding pm_entries_def m'(3) filter_map by (simp add: comp_def case_prod_unfold)
  moreover have "plain_map m'" using m' inv by (auto simp: plain_map_entries list_all_iff)
  ultimately show ?thesis using m'(1) by (simp add: remove_entry_def)
qed

lemma get_paths_fold:
  "list_all plain_entry es \<Longrightarrow> length (ap_paths arr) \<le> MAX_ACC_PATHS \<Longrightarrow>
   fold (\<lambda>(k, n, v) s. get_paths_cb k n v s) es (m, Inr arr) =
     (m, let ps = ap_paths arr @ filter (at_or_below (ap_path arr)) (map (fst \<circ> path_entry) es)
         in if length ps \<le> MAX_ACC_PATHS then Inr (arr\<lparr>ap_paths := ps\<rparr>)
            else Inl OutOfBounds)"
proof (induction es arbitrary: arr)
  case (Cons e es)
  obtain k n v where e: "e = (k, n, v)" by (cases e)
  have scan: "scan_dds k = Some (key_path k)" using Cons.prems e plain_entry_scan [of k n v] by auto
  have fault: "fold (\<lambda>(k, n, v) s. get_paths_cb k n v s) es (m, Inl f) = (m, Inl f)" for f es
    by (induction es) (auto simp: get_paths_cb_def)
  show ?case
  proof (cases "at_or_below (ap_path arr) (key_path k)")
    case below: True
    show ?thesis
    proof (cases "length (ap_paths arr) < MAX_ACC_PATHS")
      case True
      then have "get_paths_cb k n v (m, Inr arr) = (m, Inr (arr\<lparr>ap_paths := ap_paths arr @ [key_path k]\<rparr>))"
        using scan below by (simp add: get_paths_cb_def)
      with Cons.IH [of "arr\<lparr>ap_paths := ap_paths arr @ [key_path k]\<rparr>"] Cons.prems True below
      show ?thesis by (simp add: e Let_def)
    next
      case False
      then have "get_paths_cb k n v (m, Inr arr) = (m, Inl OutOfBounds)"
        using scan below by (simp add: get_paths_cb_def)
      with Cons.prems False below fault show ?thesis by (simp add: e Let_def)
    qed
  next
    case False
    then have "get_paths_cb k n v (m, Inr arr) = (m, Inr arr)"
      using scan by (simp add: get_paths_cb_def)
    with Cons.IH [of arr] Cons.prems False show ?thesis by (simp add: e)
  qed
qed simp

lemma get_paths_law:
  assumes "plain_map m"
  shows "get_paths m path =
    (let ps = filter (at_or_below path) (map fst (pm_entries m))
     in if length ps \<le> MAX_ACC_PATHS then Inr \<lparr>ap_path = path, ap_paths = ps, ap_ss_num = - 1\<rparr>
        else Inl OutOfBounds)"
proof -
  have inv: "hm_inv m" "list_all plain_entry (hm_entries m)"
    using assms by (simp_all add: plain_map_entries)
  have "fst (get_paths_cb k n v s) = fst s" for k n v s by (simp add: get_paths_cb_def)
  from hashmap_iterate_law [OF inv(1) this] get_paths_fold [OF inv(2)] show ?thesis
    by (simp add: get_paths_def pm_entries_def Let_def)
qed

lemma print_map_law:
  assumes "plain_map m"
  shows "print_map m = Inr (pm_entries m)"
proof -
  have inv: "hm_inv m" "list_all plain_entry (hm_entries m)"
    using assms by (simp_all add: plain_map_entries)
  have step: "fst (print_map_cb k n v s) = fst s" for k n v s by (simp add: print_map_cb_def)
  have "fold (\<lambda>(k, n, v) s. print_map_cb k n v s) es (m, Inr out) = (m, Inr (out @ map path_entry es))"
    if "list_all plain_entry es" for es out
    using that
  proof (induction es arbitrary: out)
    case (Cons e es)
    obtain k n v where e: "e = (k, n, v)" by (cases e)
    have "scan_dds k = Some (key_path k)" using Cons.prems e plain_entry_scan [of k n v] by auto
    with Cons show ?case by (simp add: e print_map_cb_def)
  qed simp
  from hashmap_iterate_law [OF inv(1) step] this [OF inv(2)] show ?thesis
    by (simp add: print_map_def pm_entries_def)
qed

section \<open>Properties\<close>

text \<open>
  \<^verbatim>\<open>set_value\<close> on a well-formed path map, for a non-empty path of at most 4090 characters
  and a number of the C type, succeeds, keeps the map well-formed and updates the association
  list of the map: a known path keeps its place, a new one is added at the end.
\<close>

theorem set_value_updates:
  assumes "pm_inv m" and "p \<noteq> []" and "length p \<le> 4090" and "- (2 ^ 31) \<le> v" and "v < 2 ^ 31"
  shows "\<exists>m'. set_value m p v = Inr m' \<and> pm_inv m' \<and>
    pm_entries m' = AList.update p v (pm_entries m)"
proof -
  obtain t where t: "format_key p = Inr t" using format_key_fits assms(2,3) by blast
  show ?thesis using set_value_law [OF assms(1) t, of v] uintptr_roundtrip [OF assms(4,5)] by simp
qed

theorem set_value_updates_witness:
  "\<exists>m. set_value hashmap_create ''a/b'' 3 = Inr m \<and> pm_entries m = [(''a/b'', 3)]"
  using set_value_updates [of hashmap_create "''a/b''" 3] entries_create by auto

text \<open>
  \<^verbatim>\<open>get_value\<close> returns the number stored for the path, and \<open>-1\<close> when there is none.
\<close>

theorem get_value_lookup:
  assumes "pm_inv m" and "p \<noteq> []" and "length p \<le> 4090"
  shows "get_value m p = Inr (case map_of (pm_entries m) p of None \<Rightarrow> - 1 | Some v \<Rightarrow> v)"
proof -
  obtain t where "format_key p = Inr t" using format_key_fits assms(2,3) by blast
  with assms(1) show ?thesis by (rule get_value_law)
qed

text \<open>
  The witnesses share a map with two paths.
\<close>

lemma two_paths:
  "\<exists>m. plain_map m \<and> pm_entries m = [(''d/f'', 0), (''e'', 1)]"
proof -
  have create: "pm_inv hashmap_create" "pm_entries hashmap_create = []" by (fact entries_create)+
  obtain t where "format_key ''d/f'' = Inr t" using format_key_fits [of "''d/f''"] by auto
  from set_value_law [OF create(1) this, of 0] obtain m where
    m: "pm_inv m" "pm_entries m = [(''d/f'', 0)]" using create(2) uintptr_roundtrip [of 0] by auto
  obtain u where "format_key ''e'' = Inr u" using format_key_fits [of "''e''"] by auto
  from set_value_law [OF m(1) this, of 1] m(2) obtain m' where
    "pm_inv m'" "pm_entries m' = [(''d/f'', 0), (''e'', 1)]" using uintptr_roundtrip [of 1] by auto
  then show ?thesis by (intro exI [of _ m']) (simp add: plain_map_def plain_def is_space_def)
qed

theorem get_value_lookup_witness:
  "\<exists>m. get_value m ''e'' = Inr 1 \<and> get_value m ''f'' = Inr (- 1)"
proof -
  obtain m where m: "plain_map m" "pm_entries m = [(''d/f'', 0), (''e'', 1)]" using two_paths by blast
  then have "pm_inv m" by (simp add: plain_map_def)
  from get_value_lookup [OF this, of "''e''"] get_value_lookup [OF this, of "''f''"] m(2)
  show ?thesis by (intro exI [of _ m]) simp
qed

lemma set_value_plain:
  assumes "plain_map m" and "plain p" and "length p \<le> 4090" and "- (2 ^ 31) \<le> v" and "v < 2 ^ 31"
  obtains m' where "set_value m p v = Inr m'" "plain_map m'" "pm_entries m' = AList.update p v (pm_entries m)"
proof -
  have inv: "pm_inv m" "list_all (\<lambda>(p, v). plain p) (pm_entries m)" using assms(1) by (simp_all add: plain_map_def)
  obtain t where t: "format_key p = Inr t" using format_key_fits assms(2,3) by (auto simp: plain_def)
  from set_value_law [OF inv(1) t, of v] uintptr_roundtrip [OF assms(4,5)] obtain m' where
    m': "set_value m p v = Inr m'" "pm_inv m'" "pm_entries m' = AList.update p v (pm_entries m)" by auto
  have "list_all (\<lambda>(p, v). plain p) (AList.update p v xs)" if "list_all (\<lambda>(p, v). plain p) xs" for xs
    using that assms(2) by (induction xs) auto
  with m' inv(2) that show thesis by (simp add: plain_map_def)
qed

text \<open>The test the callbacks make is that for the path itself or what follows it after a slash.\<close>

lemma at_or_below_iff: "at_or_below path p \<longleftrightarrow> p = path \<or> prefix (path @ ''/'') p"
proof -
  have "take (length path) p = path \<longleftrightarrow> prefix path p" by (metis append_eq_conv_conj prefix_def take_is_prefix)
  moreover have "length p = length path \<or> p ! length path = CHR ''/'' \<longleftrightarrow> p = path \<or> prefix (path @ ''/'') p"
    if "p = path @ r" "r = [] \<or> r \<noteq> []" for r
    using that by (cases r) auto
  ultimately show ?thesis by (auto simp: at_or_below_def prefix_def)
qed

text \<open>
  Claim C15. \<^verbatim>\<open>remove_entry\<close> removes exactly the path and the paths below it (a path that merely
  starts with the same characters stays), keeps the others in order and the map well-formed,
  although it removes entries from the map it is iterating over.
\<close>

theorem remove_entry_removes_subtree:
  assumes "plain_map m"
  shows "\<exists>m'. remove_entry m path = Inr m' \<and> plain_map m' \<and>
    pm_entries m' = filter (\<lambda>(p, v). p \<noteq> path \<and> \<not> prefix (path @ ''/'') p) (pm_entries m)"
  using remove_entry_law [OF assms, of path] by (simp add: at_or_below_iff)

theorem remove_entry_removes_subtree_witness:
  "\<exists>m m'. pm_entries m = [(''d/f'', 0), (''e'', 1)] \<and> remove_entry m ''d'' = Inr m' \<and>
     pm_entries m' = [(''e'', 1)]"
proof -
  obtain m where m: "plain_map m" "pm_entries m = [(''d/f'', 0), (''e'', 1)]" using two_paths by blast
  from remove_entry_removes_subtree [OF m(1), of "''d''"] obtain m' where
    "remove_entry m ''d'' = Inr m'" "pm_entries m' = filter (\<lambda>(p, v). p \<noteq> ''d'' \<and> \<not> prefix (''d'' @ ''/'') p) (pm_entries m)"
    by blast
  with m(2) show ?thesis by (intro exI [of _ m] exI [of _ m']) simp
qed

text \<open>
  Claim C29. \<^verbatim>\<open>get_paths\<close> lists the stored paths at or below the given one, in insertion order,
  as long as there are at most \<^verbatim>\<open>MAX_ACC_PATHS\<close>; with more it writes behind its array.
\<close>

theorem get_paths_lists_subtree:
  assumes "plain_map m"
  shows "get_paths m path =
    (let ps = filter (\<lambda>p. p = path \<or> prefix (path @ ''/'') p) (map fst (pm_entries m))
     in if length ps \<le> MAX_ACC_PATHS then Inr \<lparr>ap_path = path, ap_paths = ps, ap_ss_num = - 1\<rparr>
        else Inl OutOfBounds)"
  using get_paths_law [OF assms, of path] by (simp add: at_or_below_iff [abs_def])

theorem get_paths_lists_subtree_witness:
  "\<exists>m. get_paths m ''d'' = Inr \<lparr>ap_path = ''d'', ap_paths = [''d/f''], ap_ss_num = - 1\<rparr>"
proof -
  obtain m where m: "plain_map m" "pm_entries m = [(''d/f'', 0), (''e'', 1)]" using two_paths by blast
  from get_paths_lists_subtree [OF m(1), of "''d''"] m(2) show ?thesis
    by (intro exI [of _ m]) (simp add: MAX_ACC_PATHS_def Let_def)
qed

text \<open>
  \<^verbatim>\<open>print_map\<close> prints every stored path once with its number, in insertion order.
\<close>

theorem print_map_prints_all:
  assumes "plain_map m"
  shows "print_map m = Inr (pm_entries m)"
  by (rule print_map_law [OF assms])

theorem print_map_prints_all_witness: "\<exists>m. print_map m = Inr [(''d/f'', 0), (''e'', 1)]"
proof -
  obtain m where "plain_map m" "pm_entries m = [(''d/f'', 0), (''e'', 1)]" using two_paths by blast
  with print_map_prints_all [of m] show ?thesis by auto
qed

end
