(* ===== verification/File_Ops.thy ===== *)
theory File_Ops
  imports Io Map_Operations_Correct
begin

text \<open>
  operations/create_file.c and operations/delete.c: the storage server's CREATE and DELETE, and
  the state of a storage server that they share with the transfers (the globals of
  storageserverinit.c).
\<close>

section \<open>State of a storage server\<close>

text \<open>
  \<open>ss_semaphores\<close> and \<open>ss_semlocks\<close> give the value of a semaphore once \<^verbatim>\<open>sem_init\<close> was called on
  it; \<open>associated_files\<close> is the index the next file gets.
\<close>

record storage = world +
  ss_path_to_sem :: hashmap
  ss_associated_files :: int
  ss_semaphores :: "int \<Rightarrow> nat option"
  ss_semlocks :: "int \<Rightarrow> nat option"
  ss_reader_count :: "int \<Rightarrow> int"

text \<open>
  The programs run by the server (\<^verbatim>\<open>touch\<close>, \<^verbatim>\<open>mkdir\<close>, \<^verbatim>\<open>rm\<close>, \<^verbatim>\<open>tar\<close>) are a parameter: what a
  command line does to the files and whether it exits with 0; \<open>None\<close> when the fork fails.
\<close>

type_synonym runner = "string list \<Rightarrow> files \<Rightarrow> (files \<times> bool) option"

definition run_command :: "runner \<Rightarrow> string list \<Rightarrow> ('z storage_scheme, bool option) io" where
  "run_command exec cmd w =
     (case exec cmd (w_files w) of
        None \<Rightarrow> Done None w
      | Some (fs, ok) \<Rightarrow> Done (Some ok) (w\<lparr>w_files := fs\<rparr>))"

section \<open>CREATE\<close>

text \<open>
  \<^verbatim>\<open>extension && extension != filename && extension[1] != '\0'\<close> for the first period of the name.
\<close>

definition has_extension :: "string \<Rightarrow> bool" where
  "has_extension s =
     (let e = dropWhile (\<lambda>c. c \<noteq> CHR ''.'') s in e \<noteq> [] \<and> length e \<noteq> length s \<and> 2 \<le> length e)"

definition create :: "runner \<Rightarrow> string \<Rightarrow> string \<Rightarrow> ('z storage_scheme, int) io" where
  "create exec path filename =
     (let full_path = take (PATH_MAX - 1) (''.'' @ path @ ''/'' @ filename);
          command = (if has_extension filename then [''touch'', full_path] else [''mkdir'', full_path])
      in io_bind (run_command exec command) (\<lambda>status.
           if status = Some True
           then io_bind (io_get ss_associated_files) (\<lambda>n.
                io_bind (io_get ss_path_to_sem) (\<lambda>m.
                io_bind (io_lift (set_value m (drop 1 full_path) n)) (\<lambda>m'.
                io_bind (io_update (ss_path_to_sem_update (\<lambda>_. m'))) (\<lambda>_.
                io_bind (io_update (ss_associated_files_update (\<lambda>k. k + 1))) (\<lambda>_.
                io_return 1)))))
           else io_return 0))"

text \<open>The rows of \<^verbatim>\<open>args\<close> are \<^verbatim>\<open>PATH_MAX\<close> bytes, so are the copies.\<close>

definition runCreate :: "runner \<Rightarrow> string list \<Rightarrow> int \<Rightarrow> ('z storage_scheme, int) io" where
  "runCreate exec args no_args =
     (if no_args \<noteq> 3 then io_return (- 1)
      else io_bind (create exec (args ! 1) (args ! 2)) (\<lambda>r.
           io_return (if r \<noteq> 0 then 1 else 0)))"

section \<open>DELETE\<close>

definition deleteItem :: "runner \<Rightarrow> string \<Rightarrow> ('z storage_scheme, int) io" where
  "deleteItem exec path =
     (let full_path = take (PATH_MAX - 1) (''.'' @ path);
          command = (if has_extension path then [''rm'', full_path] else [''rm'', ''-rf'', full_path])
      in io_bind (run_command exec command) (\<lambda>status.
           if status = Some True
           then io_bind (io_get ss_path_to_sem) (\<lambda>m.
                io_bind (io_lift (remove_entry m (drop 1 full_path))) (\<lambda>m'.
                io_bind (io_update (ss_path_to_sem_update (\<lambda>_. m'))) (\<lambda>_.
                io_return 1)))
           else io_return 0))"

definition runDelete :: "runner \<Rightarrow> string list \<Rightarrow> int \<Rightarrow> ('z storage_scheme, int) io" where
  "runDelete exec args no_args =
     (if no_args \<noteq> 2 then io_return (- 1)
      else io_bind (deleteItem exec (args ! 1)) (\<lambda>r. io_return (if r \<noteq> 0 then 1 else 0)))"

section \<open>Effect on the map of paths\<close>

text \<open>The name under which a file is registered: the path as sent, cut to what fits the buffer.\<close>

definition registered_name :: "string \<Rightarrow> string" where
  "registered_name s = take (PATH_MAX - 2) s"

lemma full_path_name: "drop 1 (take (PATH_MAX - 1) (CHR ''.'' # s)) = registered_name s"
  by (simp add: registered_name_def take_Cons')

text \<open>A server whose map is well formed and whose counter has not run over.\<close>

definition storage_ok :: "'z storage_scheme \<Rightarrow> bool" where
  "storage_ok w \<longleftrightarrow> plain_map (ss_path_to_sem w) \<and> 0 \<le> ss_associated_files w \<and> ss_associated_files w < 2 ^ 31"

abbreviation registered :: "'z storage_scheme \<Rightarrow> (string \<times> int) list" where
  "registered w \<equiv> pm_entries (ss_path_to_sem w)"

lemma create_law:
  assumes ok: "storage_ok w" and p: "plain (path @ ''/'' @ filename)" "length (path @ ''/'' @ filename) \<le> 4090"
    and run: "exec (if has_extension filename then [''touch'', ''.'' @ path @ ''/'' @ filename]
        else [''mkdir'', ''.'' @ path @ ''/'' @ filename]) (w_files w) = Some (fs, True)"
  shows "\<exists>m. create exec path filename w =
      Done 1 (w\<lparr>w_files := fs, ss_path_to_sem := m, ss_associated_files := ss_associated_files w + 1\<rparr>) \<and>
    plain_map m \<and> pm_entries m = AList.update (path @ ''/'' @ filename) (ss_associated_files w) (registered w)"
proof -
  let ?n = "path @ ''/'' @ filename"
  have fits: "take (PATH_MAX - 1) (''.'' @ ?n) = ''.'' @ ?n" using p(2) by simp
  obtain m where "set_value (ss_path_to_sem w) ?n (ss_associated_files w) = Inr m" "plain_map m"
    "pm_entries m = AList.update ?n (ss_associated_files w) (registered w)"
    by (rule set_value_plain [of "ss_path_to_sem w" ?n "ss_associated_files w"])
       (use ok p in \<open>auto simp: storage_ok_def\<close>)
  with run fits show ?thesis
    by (intro exI [of _ m] conjI)
       (simp_all add: create_def run_command_def Let_def io_simps split: if_splits)
qed

lemma delete_law:
  assumes ok: "plain_map (ss_path_to_sem w)" and p: "length path < PATH_MAX - 1"
    and run: "exec (if has_extension path then [''rm'', ''.'' @ path] else [''rm'', ''-rf'', ''.'' @ path])
        (w_files w) = Some (fs, True)"
  shows "\<exists>m. deleteItem exec path w = Done 1 (w\<lparr>w_files := fs, ss_path_to_sem := m\<rparr>) \<and>
    plain_map m \<and> pm_entries m = filter (\<lambda>(q, v). \<not> at_or_below path q) (registered w)"
proof -
  have fits: "take (PATH_MAX - 1) (''.'' @ path) = ''.'' @ path" using p by simp
  obtain m where "remove_entry (ss_path_to_sem w) path = Inr m" "plain_map m"
    "pm_entries m = filter (\<lambda>(q, v). \<not> at_or_below path q) (registered w)"
    using remove_entry_law [OF ok, of path] by blast
  with run fits show ?thesis
    by (intro exI [of _ m] conjI)
       (simp_all add: deleteItem_def run_command_def Let_def io_simps split: if_splits)
qed

text \<open>Filtering out a key that was just set leaves what was there before it.\<close>

lemma filter_update:
  "P p \<Longrightarrow> filter (\<lambda>(q, v). \<not> P q) (AList.update p v xs) = filter (\<lambda>(q, v). \<not> P q) xs"
  by (induction xs) auto

lemma at_or_below_self: "at_or_below p p"
  by (simp add: at_or_below_def)

section \<open>Properties\<close>



text \<open>A server that has just started, for the witnesses.\<close>

definition fresh_storage :: storage where
  "fresh_storage =
     \<lparr>w_in = (\<lambda>_. []), w_send_ok = [], w_connect = [], w_next = 3, w_stdin = [], w_files = (\<lambda>_. None),
      w_locked = (\<lambda>_. False), w_events = [],
      ss_path_to_sem = hashmap_create, ss_associated_files = 0, ss_semaphores = (\<lambda>_. None),
      ss_semlocks = (\<lambda>_. None), ss_reader_count = (\<lambda>_. 0)\<rparr>"

lemma fresh_storage: "storage_ok fresh_storage" "registered fresh_storage = []"
  using entries_create by (simp_all add: fresh_storage_def storage_ok_def plain_map_def)



end
