(* ===== verification/Registration.thy ===== *)
theory Registration
  imports Io
begin

text \<open>
  The structure a storage server introduces itself with (definitions.h), as bytes and back.
\<close>

section \<open>The structure\<close>

text \<open>\<^verbatim>\<open>struct StorageServer\<close>, and how it lies in memory and so on the wire.\<close>

record storage_info =
  si_ip :: string
  si_naming_port :: int
  si_client_port :: int
  si_paths :: "string list"

definition encode_info :: "storage_info \<Rightarrow> string" where
  "encode_info si =
     buffer 16 (si_ip si) @ int_bytes (si_naming_port si) @ int_bytes (si_client_port si) @
     concat (map (buffer PATH_MAX) (si_paths si))"

text \<open>A field that is a C string has to end inside the field.\<close>

definition field_string :: "string \<Rightarrow> fault + string" where
  "field_string bs = (if NUL \<in> set bs then Inr (cstr bs) else Inl OutOfBounds)"

primrec decode_rows :: "nat \<Rightarrow> string \<Rightarrow> fault + string list" where
  "decode_rows 0 bs = Inr []"
| "decode_rows (Suc n) bs =
     fbind (field_string (take PATH_MAX bs)) (\<lambda>r.
     fbind (decode_rows n (drop PATH_MAX bs)) (\<lambda>rs. Inr (r # rs)))"

definition info_size :: nat where
  "info_size = 24 + MAX_ACC_PATHS * PATH_MAX"

text \<open>The structure is zeroed before it is received; what did not arrive stays zero.\<close>

definition decode_info :: "string \<Rightarrow> fault + storage_info" where
  "decode_info bs =
     (let b = buffer info_size bs
      in fbind (field_string (take 16 b)) (\<lambda>ip.
         fbind (decode_rows MAX_ACC_PATHS (drop 24 b)) (\<lambda>rows.
         Inr \<lparr>si_ip = ip, si_naming_port = bytes_int (take 4 (drop 16 b)),
              si_client_port = bytes_int (take 4 (drop 20 b)), si_paths = rows\<rparr>)))"

section \<open>Sending it and receiving it\<close>

lemma field_string_buffer: "NUL \<notin> set s \<Longrightarrow> length s < n \<Longrightarrow> field_string (buffer n s) = Inr s"
  by (simp add: field_string_def cstr_buffer) (simp add: buffer_short)

lemma decode_rows_buffers:
  "list_all (\<lambda>p. NUL \<notin> set p \<and> length p < PATH_MAX) ps \<Longrightarrow>
   decode_rows (length ps) (concat (map (buffer PATH_MAX) ps)) = Inr ps"
  by (induction ps) (simp_all add: field_string_buffer)

lemma length_encode_rows: "length (concat (map (buffer PATH_MAX) ps)) = length ps * PATH_MAX"
  by (induction ps) simp_all

definition info_ok :: "storage_info \<Rightarrow> bool" where
  "info_ok si \<longleftrightarrow>
     NUL \<notin> set (si_ip si) \<and> length (si_ip si) < 16 \<and>
     - (2 ^ 31) \<le> si_naming_port si \<and> si_naming_port si < 2 ^ 31 \<and>
     - (2 ^ 31) \<le> si_client_port si \<and> si_client_port si < 2 ^ 31 \<and>
     length (si_paths si) = MAX_ACC_PATHS \<and>
     list_all (\<lambda>p. NUL \<notin> set p \<and> length p < PATH_MAX) (si_paths si)"

lemma buffer_full: "length bs = n \<Longrightarrow> buffer n bs = bs"
  by (simp add: buffer_def)

lemma decode_encode:
  assumes "info_ok si"
  shows "decode_info (encode_info si) = Inr si"
proof -
  have ok: "NUL \<notin> set (si_ip si)" "length (si_ip si) < 16"
    "- (2 ^ 31) \<le> si_naming_port si" "si_naming_port si < 2 ^ 31"
    "- (2 ^ 31) \<le> si_client_port si" "si_client_port si < 2 ^ 31"
    "length (si_paths si) = MAX_ACC_PATHS"
    "list_all (\<lambda>p. NUL \<notin> set p \<and> length p < PATH_MAX) (si_paths si)"
    using assms by (simp_all add: info_ok_def)
  have "length (encode_info si) = info_size"
    using ok(7) by (simp add: encode_info_def info_size_def length_encode_rows)
  then have "buffer info_size (encode_info si) = encode_info si" by (rule buffer_full)
  moreover have "take 16 (encode_info si) = buffer 16 (si_ip si)"
    "take 4 (drop 16 (encode_info si)) = int_bytes (si_naming_port si)"
    "take 4 (drop 20 (encode_info si)) = int_bytes (si_client_port si)"
    "drop 24 (encode_info si) = concat (map (buffer PATH_MAX) (si_paths si))"
    by (simp_all add: encode_info_def)
  ultimately show ?thesis
    using ok field_string_buffer [OF ok(1,2)] decode_rows_buffers [OF ok(8)]
    by (simp add: decode_info_def Let_def int_bytes_roundtrip)
qed


text \<open>A structure that is sent before all rows are filled in, with the other rows empty.\<close>

definition example_info :: storage_info where
  "example_info =
     \<lparr>si_ip = ''127.0.0.1'', si_naming_port = 5000, si_client_port = 5001,
      si_paths = ''/a.txt'' # replicate 14 []\<rparr>"

lemma example_info_ok: "info_ok example_info"
  by (simp add: info_ok_def example_info_def NUL_def MAX_ACC_PATHS_def list_all_iff)


end
