(* ===== verification/Storage_Server.thy ===== *)
theory Storage_Server
  imports File_Ops Registration
begin

text \<open>
  storageserverinit.c: the transfers of a storage server (READ, WRITE, DETAILS for clients, SEND
  and RECEIVE for the naming server), the dispatch of commands and the loop that serves
  connections.
\<close>

section \<open>Semaphores\<close>

text \<open>
  \<^verbatim>\<open>sem_wait\<close> and \<^verbatim>\<open>sem_post\<close> on the element \<open>i\<close> of one of the two arrays. In a run of one thread a
  semaphore that is 0 blocks.
\<close>

definition sem_wait ::
  "('w \<Rightarrow> int \<Rightarrow> nat option) \<Rightarrow> (((int \<Rightarrow> nat option) \<Rightarrow> int \<Rightarrow> nat option) \<Rightarrow> 'w \<Rightarrow> 'w) \<Rightarrow> int \<Rightarrow>
   ('w, unit) io" where
  "sem_wait get upd i w =
     (if i < 0 \<or> int MAX_ASSOCIATED_FILES \<le> i then Faulted OutOfBounds w
      else case get w i of
        None \<Rightarrow> Faulted Uninitialised w
      | Some n \<Rightarrow> if n = 0 then Blocked w else Done () (upd (\<lambda>f. f(i \<mapsto> n - 1)) w))"

definition sem_post ::
  "('w \<Rightarrow> int \<Rightarrow> nat option) \<Rightarrow> (((int \<Rightarrow> nat option) \<Rightarrow> int \<Rightarrow> nat option) \<Rightarrow> 'w \<Rightarrow> 'w) \<Rightarrow> int \<Rightarrow>
   ('w, unit) io" where
  "sem_post get upd i w =
     (if i < 0 \<or> int MAX_ASSOCIATED_FILES \<le> i then Faulted OutOfBounds w
      else case get w i of
        None \<Rightarrow> Faulted Uninitialised w
      | Some n \<Rightarrow> Done () (upd (\<lambda>f. f(i \<mapsto> n + 1)) w))"

abbreviation wait_semaphore :: "int \<Rightarrow> ('z storage_scheme, unit) io" where
  "wait_semaphore \<equiv> sem_wait ss_semaphores ss_semaphores_update"

abbreviation post_semaphore :: "int \<Rightarrow> ('z storage_scheme, unit) io" where
  "post_semaphore \<equiv> sem_post ss_semaphores ss_semaphores_update"

abbreviation wait_semlock :: "int \<Rightarrow> ('z storage_scheme, unit) io" where
  "wait_semlock \<equiv> sem_wait ss_semlocks ss_semlocks_update"

abbreviation post_semlock :: "int \<Rightarrow> ('z storage_scheme, unit) io" where
  "post_semlock \<equiv> sem_post ss_semlocks ss_semlocks_update"

section \<open>READ\<close>

text \<open>The loop that sends the chunks, each of which the client has to acknowledge.\<close>

primrec send_chunks :: "nat \<Rightarrow> string list \<Rightarrow> ('z world_scheme, unit) io" where
  "send_chunks s [] = io_return ()"
| "send_chunks s (c # cs) =
     io_bind (send_or_exit s c) (\<lambda>_.
     io_bind (recv_or_exit s (CHUNK_SIZE + 1)) (\<lambda>bs.
     io_bind (received_string (CHUNK_SIZE + 1) bs) (\<lambda>ack.
     if strcaseeq ack ''ACK'' then send_chunks s cs else io_exit)))"

text \<open>What \<^verbatim>\<open>read_file\<close> does before it opens the file and after it is done.\<close>

definition reader_enter :: "int \<Rightarrow> ('z storage_scheme, unit) io" where
  "reader_enter i =
     io_bind (wait_semlock i) (\<lambda>_.
     io_bind (io_update (ss_reader_count_update (\<lambda>f. f(i := f i + 1)))) (\<lambda>_.
     io_bind (io_get (\<lambda>w. ss_reader_count w i)) (\<lambda>n.
     io_bind (if n > 0 then wait_semaphore i else io_return ()) (\<lambda>_.
     post_semlock i))))"

definition reader_leave :: "int \<Rightarrow> ('z storage_scheme, unit) io" where
  "reader_leave i =
     io_bind (wait_semlock i) (\<lambda>_.
     io_bind (io_update (ss_reader_count_update (\<lambda>f. f(i := f i - 1)))) (\<lambda>_.
     io_bind (io_get (\<lambda>w. ss_reader_count w i)) (\<lambda>n.
     io_bind (if n = 0 then post_semaphore i else io_return ()) (\<lambda>_.
     post_semlock i))))"

definition read_file :: "nat \<Rightarrow> string \<Rightarrow> int \<Rightarrow> ('z storage_scheme, unit) io" where
  "read_file s path i =
     io_bind (reader_enter i) (\<lambda>_.
     io_bind (open_read (''.'' @ path)) (\<lambda>file_read.
     case file_read of
       None \<Rightarrow> io_exit
     | Some content \<Rightarrow>
         io_bind (send_chunks s (chunks content)) (\<lambda>_.
         io_bind (send_or_exit s (buffer (CHUNK_SIZE + 1) ''STOP'')) (\<lambda>_.
         io_bind (reader_leave i) (\<lambda>_.
         close_socket s)))))"

text \<open>The thread is joined at once, so it is a call.\<close>

definition readServerSide :: "string list \<Rightarrow> int \<Rightarrow> nat \<Rightarrow> ('z storage_scheme, int) io" where
  "readServerSide args no_args s =
     (if no_args \<noteq> 2 then io_return 0
      else io_bind (io_get ss_path_to_sem) (\<lambda>m.
           io_bind (io_lift (get_value m (args ! 1))) (\<lambda>sem_index.
           if sem_index = - 1 then io_return 0
           else io_bind (read_file s (args ! 1) sem_index) (\<lambda>_. io_return 1))))"

section \<open>WRITE\<close>

lemma append_file_in: "append_file name bs w = Done u w' \<Longrightarrow> w_in w' = w_in w"
  by (auto simp: append_file_def)

text \<open>
  The loop that receives the chunks: every packet is acknowledged, a packet that reads STOP ends
  the loop, of any other packet the bytes before the first zero are written.
\<close>

function write_loop :: "nat \<Rightarrow> string \<Rightarrow> 'z world_scheme \<Rightarrow> ('z world_scheme, unit) outcome" where
  "write_loop s name w =
     io_bind (recv_or_exit s (CHUNK_SIZE + 1)) (\<lambda>bs.
     io_bind (send_or_exit s (buffer (CHUNK_SIZE + 1) ''ACK'')) (\<lambda>_.
     io_bind (received_string (CHUNK_SIZE + 1) bs) (\<lambda>text w.
     if strcaseeq text ''STOP'' then io_return () w
     else io_bind (append_file name text) (\<lambda>_ w. write_loop s name w) w))) w"
  by pat_completeness auto

termination
  by (relation "measure (\<lambda>(s, name, w). in_size (w_in w s))")
     (auto dest!: recv_or_exit_in_size send_or_exit_in received_string_same append_file_in)

declare write_loop.simps [simp del]

definition write_to_file :: "nat \<Rightarrow> string \<Rightarrow> int \<Rightarrow> ('z storage_scheme, unit) io" where
  "write_to_file s path i =
     io_bind (open_write (''.'' @ path)) (\<lambda>ok.
     if \<not> ok then io_exit
     else io_bind (wait_semaphore i) (\<lambda>_.
          io_bind (write_loop s (''.'' @ path)) (\<lambda>_.
          io_bind (post_semaphore i) (\<lambda>_.
          close_socket s))))"

definition writeServerSide :: "string list \<Rightarrow> int \<Rightarrow> nat \<Rightarrow> ('z storage_scheme, int) io" where
  "writeServerSide args no_args s =
     (if no_args \<noteq> 2 then io_return 0
      else io_bind (io_get ss_path_to_sem) (\<lambda>m.
           io_bind (io_lift (get_value m (args ! 1))) (\<lambda>sem_index.
           if sem_index = - 1 then io_return 0
           else io_bind (write_to_file s (args ! 1) sem_index) (\<lambda>_. io_return 1))))"

section \<open>DETAILS\<close>

text \<open>
  What \<^verbatim>\<open>stat\<close> reports is a parameter: size, mode, owner, group and time of last modification.
\<close>

type_synonym stats = "string \<Rightarrow> (int \<times> int \<times> int \<times> int \<times> int) option"

definition details_text :: "string \<Rightarrow> int \<times> int \<times> int \<times> int \<times> int \<Rightarrow> string" where
  "details_text name st =
     (case st of (sz, mode, uid, gid, mtime) \<Rightarrow>
        name @ '' '' @ show_int sz @ '' '' @ show_oct (nat mode) @ '' '' @ show_int uid @ '' '' @
        show_int gid @ '' '' @ show_int mtime)"

definition get_file_details :: "stats \<Rightarrow> nat \<Rightarrow> string \<Rightarrow> ('z world_scheme, unit) io" where
  "get_file_details stat s path =
     (case stat (''.'' @ path) of
        None \<Rightarrow> io_exit
      | Some st \<Rightarrow>
          (let file_name = fst (basename (''.'' @ path))
           in if PATH_MAX \<le> length file_name then io_fault BufferOverflow
              else
              io_bind (send_or_exit s (details_text file_name st)) (\<lambda>_.
              io_bind (recv_or_exit s MAX_BUFFER_SIZE) (\<lambda>_. io_return ()))))"

definition fileDetailsServerSide :: "stats \<Rightarrow> string list \<Rightarrow> int \<Rightarrow> nat \<Rightarrow> ('z world_scheme, int) io" where
  "fileDetailsServerSide stat args no_args s =
     (if no_args \<noteq> 2 then io_return 0
      else io_bind (get_file_details stat s (args ! 1)) (\<lambda>_. io_return 1))"

section \<open>SEND\<close>

text \<open>\<^verbatim>\<open>system\<close> hands its line to the shell; the result is not looked at.\<close>

definition system :: "runner \<Rightarrow> string \<Rightarrow> ('z storage_scheme, unit) io" where
  "system exec line = io_bind (run_command exec [''sh'', ''-c'', line]) (\<lambda>_. io_return ())"

primrec send_all :: "nat \<Rightarrow> string list \<Rightarrow> ('z world_scheme, unit) io" where
  "send_all s [] = io_return ()"
| "send_all s (c # cs) = io_bind (send_or_exit s c) (\<lambda>_. send_all s cs)"

text \<open>
  A directory is packed first; \<^verbatim>\<open>path\<close> is a buffer of \<^verbatim>\<open>PATH_MAX + 2\<close> bytes that the suffix has to
  fit. The packed file is removed by its base name.
\<close>

definition send_file :: "runner \<Rightarrow> nat \<Rightarrow> string \<Rightarrow> ('z storage_scheme, unit) io" where
  "send_file exec s arg_path =
     io_bind (io_get (\<lambda>w. w_files w (''.'' @ arg_path))) (\<lambda>st.
     case st of
       None \<Rightarrow> io_exit
     | Some nd \<Rightarrow>
         (let dir = (nd = Dir)
          in io_bind
               (if dir
                then io_bind (system exec (''tar -czvf .'' @ arg_path @ ''.tar.gz .'' @ arg_path)) (\<lambda>_.
                     if PATH_MAX + 2 \<le> length (''.'' @ arg_path @ ''.tar.gz'') then io_fault BufferOverflow
                     else io_return (''.'' @ arg_path @ ''.tar.gz''))
                else io_return (''.'' @ arg_path)) (\<lambda>path.
             io_bind (io_return (basename path)) (\<lambda>(file_name, path).
             io_bind (send_or_exit s file_name) (\<lambda>_.
             io_bind (open_read path) (\<lambda>file_read.
             case file_read of
               None \<Rightarrow> io_exit
             | Some content \<Rightarrow>
                 io_bind (send_all s (chunks content)) (\<lambda>_.
                 io_bind (send_or_exit s (buffer (CHUNK_SIZE + 1) ''STOP'')) (\<lambda>_.
                 if dir then system exec (''rm '' @ file_name) else io_return ()))))))))"

definition runSend :: "runner \<Rightarrow> string list \<Rightarrow> int \<Rightarrow> nat \<Rightarrow> ('z storage_scheme, int) io" where
  "runSend exec args no_args s =
     (if no_args \<noteq> 2 then io_return 0
      else io_bind (send_file exec s (args ! 1)) (\<lambda>_. io_return 1))"

section \<open>RECEIVE\<close>

text \<open>Like the loop of WRITE, without acknowledgements.\<close>

function receive_loop :: "nat \<Rightarrow> string \<Rightarrow> 'z world_scheme \<Rightarrow> ('z world_scheme, unit) outcome" where
  "receive_loop s name w =
     io_bind (recv_or_exit s (CHUNK_SIZE + 1)) (\<lambda>bs.
     io_bind (received_string (CHUNK_SIZE + 1) bs) (\<lambda>text w.
     if strcaseeq text ''STOP'' then io_return () w
     else io_bind (append_file name text) (\<lambda>_ w. receive_loop s name w) w)) w"
  by pat_completeness auto

termination
  by (relation "measure (\<lambda>(s, name, w). in_size (w_in w s))")
     (auto dest!: recv_or_exit_in_size received_string_same append_file_in)

declare receive_loop.simps [simp del]

text \<open>
  \<^verbatim>\<open>server_gets + strlen(server_gets) - 7\<close> points in front of the buffer when the name has fewer
  than seven characters.
\<close>

definition receive_file :: "runner \<Rightarrow> nat \<Rightarrow> string \<Rightarrow> ('z storage_scheme, unit) io" where
  "receive_file exec s arg_path =
     io_bind (recv_or_exit s (CHUNK_SIZE + 1)) (\<lambda>bs.
     io_bind (received_string (CHUNK_SIZE + 1) bs) (\<lambda>name.
     if length name < 7 then io_fault OutOfBounds
     else
       let path = ''.'' @ arg_path;
           zip = (drop (length name - 7) name = ''.tar.gz'');
           file_path_name = path @ ''/'' @ name
       in io_bind (open_write file_path_name) (\<lambda>ok.
          if \<not> ok then io_exit
          else io_bind (receive_loop s file_path_name) (\<lambda>_.
               io_bind (send_or_exit s (int_bytes (if zip then 1 else 0))) (\<lambda>_.
               if zip then system exec (''tar -xzf '' @ file_path_name @ '' -C '' @ path)
               else io_return ())))))"

definition runReceive :: "runner \<Rightarrow> string list \<Rightarrow> int \<Rightarrow> nat \<Rightarrow> ('z storage_scheme, int) io" where
  "runReceive exec args no_args s =
     (if no_args \<noteq> 2 then io_return 0
      else io_bind (receive_file exec s (args ! 1)) (\<lambda>_. io_return 1))"

section \<open>Dispatch\<close>

definition execClientCommand :: "stats \<Rightarrow> string list \<Rightarrow> int \<Rightarrow> nat \<Rightarrow> ('z storage_scheme, int) io" where
  "execClientCommand stat args no_args s =
     (if strcaseeq (args ! 0) ''READ'' then readServerSide args no_args s
      else if strcaseeq (args ! 0) ''WRITE'' then writeServerSide args no_args s
      else if strcaseeq (args ! 0) ''DETAILS'' then fileDetailsServerSide stat args no_args s
      else io_return (- 1))"

definition execCommand :: "runner \<Rightarrow> string list \<Rightarrow> int \<Rightarrow> nat \<Rightarrow> ('z storage_scheme, int) io" where
  "execCommand exec args no_args s =
     (if strcaseeq (args ! 0) ''CREATE'' then runCreate exec args no_args
      else if strcaseeq (args ! 0) ''DELETE'' then runDelete exec args no_args
      else if strcaseeq (args ! 0) ''SEND'' then runSend exec args no_args s
      else if strcaseeq (args ! 0) ''RECEIVE'' then runReceive exec args no_args s
      else io_return (- 1))"

section \<open>Serving connections\<close>

text \<open>
  The arguments arrive one packet each and are acknowledged; a row has \<^verbatim>\<open>PATH_MAX\<close> bytes.
\<close>

primrec receive_args :: "nat \<Rightarrow> nat \<Rightarrow> ('z world_scheme, string list) io" where
  "receive_args s 0 = io_return []"
| "receive_args s (Suc n) =
     io_bind (recv_or_exit s MAX_BUFFER_SIZE) (\<lambda>bs.
     io_bind (received_string MAX_BUFFER_SIZE bs) (\<lambda>arg.
     if PATH_MAX \<le> length arg then io_fault BufferOverflow
     else io_bind (send_or_exit s (buffer MAX_BUFFER_SIZE ''ACK'')) (\<lambda>_.
          io_bind (receive_args s n) (\<lambda>args. io_return (arg # args)))))"

text \<open>
  One turn of the loop in \<^verbatim>\<open>portThread\<close>, on the accepted socket \<open>s\<close>. The variable \<^verbatim>\<open>no_args\<close> is not
  initialised (\<open>junk\<close>); an array of no rows or fewer is undefined. The two ports tell a naming
  server connection from a client connection.
\<close>

definition serve_connection ::
  "runner \<Rightarrow> stats \<Rightarrow> int \<Rightarrow> int \<Rightarrow> int \<Rightarrow> int \<Rightarrow> nat \<Rightarrow> ('z storage_scheme, unit) io" where
  "serve_connection exec stat naming_port client_port junk port s =
     io_bind (recv_or_exit s 4) (\<lambda>bs.
     let no_args = int_received junk bs
     in if no_args \<le> 0 then io_fault OutOfBounds
        else io_bind (receive_args s (nat no_args)) (\<lambda>args.
             io_bind (recv_or_exit s MAX_BUFFER_SIZE) (\<lambda>bs.
             io_bind (received_string MAX_BUFFER_SIZE bs) (\<lambda>done_packet.
             if \<not> strcaseeq done_packet ''DONE'' then io_exit
             else io_bind
                    (if port = naming_port
                     then io_bind (execCommand exec args no_args s) (\<lambda>result.
                          send_or_exit s (buffer MAX_BUFFER_SIZE (if result = 1 then ''ACK'' else ''FAIL'')))
                     else if port = client_port
                     then io_bind (execClientCommand stat args no_args s) (\<lambda>_. io_return ())
                     else io_return ()) (\<lambda>_.
                  close_socket s)))))"

text \<open>The loop, over what \<^verbatim>\<open>accept\<close> returns; \<open>None\<close> is a failure. With no more connections it waits.\<close>

primrec portThread ::
  "runner \<Rightarrow> stats \<Rightarrow> int \<Rightarrow> int \<Rightarrow> int \<Rightarrow> int \<Rightarrow> nat option list \<Rightarrow> ('z storage_scheme, unit) io" where
  "portThread exec stat naming_port client_port junk port [] = io_wait"
| "portThread exec stat naming_port client_port junk port (a # as) =
     (case a of
        None \<Rightarrow> io_exit
      | Some s \<Rightarrow>
          io_bind (serve_connection exec stat naming_port client_port junk port s) (\<lambda>_.
          portThread exec stat naming_port client_port junk port as))"

section \<open>Starting up\<close>

text \<open>
  \<^verbatim>\<open>getFiles\<close> walks through a directory and the directories in it, in the order in which \<^verbatim>\<open>readdir\<close>
  lists the entries. A directory that cannot be opened counts as empty. Each name is made relative
  to the root and has to fit a slot of \<open>files\<close> (1024 slots of 256 bytes).
\<close>

datatype dentry =
    Plain string
  | Folder string "dentry list"

fun getFiles :: "string \<Rightarrow> string \<Rightarrow> dentry list \<Rightarrow> string list \<Rightarrow> fault + string list" where
  "getFiles root path [] files = Inr files"
| "getFiles root path (Plain name # es) files =
     (if strcaseeq name ''.'' \<or> strcaseeq name ''..'' then getFiles root path es files
      else let file_path_name = path @ ''/'' @ name; rel = drop (length root) file_path_name
           in if PATH_MAX \<le> length file_path_name \<or> 256 \<le> length rel then Inl BufferOverflow
              else if 1024 \<le> length files then Inl OutOfBounds
              else getFiles root path es (files @ [rel]))"
| "getFiles root path (Folder name sub # es) files =
     (if strcaseeq name ''.'' \<or> strcaseeq name ''..'' then getFiles root path es files
      else let file_path_name = path @ ''/'' @ name; rel = drop (length root) file_path_name
           in if PATH_MAX \<le> length file_path_name \<or> 256 \<le> length rel then Inl BufferOverflow
              else if 1024 \<le> length files then Inl OutOfBounds
              else fbind (getFiles root file_path_name sub (files @ [rel])) (\<lambda>files.
                   getFiles root path es files))"

text \<open>
  The loop in which files are chosen by number. Only here are semaphores initialised. A number
  that names no listed file reads a slot that was never written.
\<close>

definition register_file :: "string \<Rightarrow> ('z storage_scheme, unit) io" where
  "register_file name =
     io_bind (io_get ss_path_to_sem) (\<lambda>m.
     io_bind (io_get ss_associated_files) (\<lambda>i.
     io_bind (io_lift (set_value m name i)) (\<lambda>m'.
     io_update (\<lambda>w. w\<lparr>ss_path_to_sem := m',
       ss_semaphores := (ss_semaphores w)(i \<mapsto> 1), ss_semlocks := (ss_semlocks w)(i \<mapsto> 1),
       ss_reader_count := (ss_reader_count w)(i := 0), ss_associated_files := i + 1\<rparr>))))"

fun choose_files ::
  "string list \<Rightarrow> int list \<Rightarrow> nat \<Rightarrow> string list \<Rightarrow> ('z storage_scheme, string list) io" where
  "choose_files files [] it_array rows = io_return rows"
| "choose_files files (file_num # rest) it_array rows =
     (if file_num < 1 \<or> 1024 < file_num then io_fault OutOfBounds
      else if int (length files) < file_num then io_fault Uninitialised
      else let name = files ! nat (file_num - 1)
           in io_bind (register_file name) (\<lambda>_.
              choose_files files rest (it_array + 1) (rows[it_array := name])))"

text \<open>
  What \<^verbatim>\<open>main\<close> says to the naming server once it is connected to it: that it is a storage server, and
  its structure. Anything but ACK ends the program.
\<close>

definition introduce :: "storage_info \<Rightarrow> nat \<Rightarrow> ('z world_scheme, unit) io" where
  "introduce si s =
     io_bind (send_or_exit s (buffer MAX_BUFFER_SIZE ''s'')) (\<lambda>_.
     io_bind (recv_or_exit s MAX_BUFFER_SIZE) (\<lambda>_.
     io_bind (send_or_exit s (encode_info si)) (\<lambda>_.
     io_bind (recv_or_exit s MAX_BUFFER_SIZE) (\<lambda>bs.
     io_bind (received_string MAX_BUFFER_SIZE bs) (\<lambda>answer.
     if strcaseeq answer ''ACK'' then close_socket s else io_exit)))))"

text \<open>
  \<^verbatim>\<open>main\<close> up to the start of the two threads. The numbers typed in are arguments (\<open>choices\<close> has
  \<^verbatim>\<open>num_files\<close> of them); the rows of \<^verbatim>\<open>storageServer\<close> hold \<open>junk_rows\<close> until they are written.
\<close>

definition storage_main ::
  "int \<Rightarrow> int \<Rightarrow> string \<Rightarrow> dentry list \<Rightarrow> int list \<Rightarrow> string list \<Rightarrow> ('z storage_scheme, unit) io" where
  "storage_main naming_port client_port root listing choices junk_rows =
     io_bind (io_update (ss_path_to_sem_update (\<lambda>_. hashmap_create))) (\<lambda>_.
     io_bind (io_lift (getFiles root root listing [])) (\<lambda>files.
     if 15 < length choices then io_exit
     else
       io_bind (io_update (ss_associated_files_update (\<lambda>_. 0))) (\<lambda>_.
       io_bind (choose_files files choices 0 (junk_rows[0 := ''/home/''])) (\<lambda>rows.
       io_bind (open_socket ''127.0.0.1'' NAMING_SERVER_PORT) (\<lambda>s.
       introduce
         \<lparr>si_ip = ''127.0.0.1'', si_naming_port = naming_port, si_client_port = client_port,
          si_paths = rows\<rparr> s)))))"

end
