(* ===== verification/Command.thy ===== *)
theory Command
  imports Io
begin

text \<open>
  \<^verbatim>\<open>processCommand\<close>, which the client and the naming server each have a copy of: cutting a line
  into words. \<open>ARGS\<close> is an array of \<^verbatim>\<open>MAX_ARGS\<close> rows that keeps what earlier commands left in it.
\<close>

section \<open>The code\<close>

definition blank :: "char \<Rightarrow> char" where
  "blank c = (if c = CHR 0x09 \<or> c = CHR 0x0A then CHR '' '' else c)"

text \<open>
  One call of \<^verbatim>\<open>strtok\<close> with the separator blank: the word and where the next call goes on.
\<close>

definition strtok :: "string \<Rightarrow> (string \<times> string) option" where
  "strtok s =
     (let r = dropWhile (\<lambda>c. c = CHR '' '') s
      in if r = [] then None
         else Some (takeWhile (\<lambda>c. c \<noteq> CHR '' '') r, drop 1 (dropWhile (\<lambda>c. c \<noteq> CHR '' '') r)))"

lemma length_dropWhile: "length (dropWhile P xs) \<le> length xs"
  by (induction xs) auto

lemma strtok_shorter: "strtok s = Some (tok, rest) \<Longrightarrow> length rest < length s"
proof -
  assume a: "strtok s = Some (tok, rest)"
  let ?r = "dropWhile (\<lambda>c. c = CHR '' '') s"
  have r: "?r \<noteq> []" "rest = drop 1 (dropWhile (\<lambda>c. c \<noteq> CHR '' '') ?r)"
    using a by (auto simp: strtok_def Let_def split: if_splits)
  have "length ?r \<le> length s" "length (dropWhile (\<lambda>c. c \<noteq> CHR '' '') ?r) \<le> length ?r"
    by (rule length_dropWhile)+
  moreover have "length rest \<le> length (dropWhile (\<lambda>c. c \<noteq> CHR '' '') ?r) - 1" by (simp add: r(2))
  moreover have "0 < length ?r" using r(1) by simp
  ultimately show ?thesis by linarith
qed

text \<open>\<^verbatim>\<open>strcpy(ARGS[idx], token)\<close>: row and token have to fit.\<close>

definition copy_arg :: "string list \<Rightarrow> nat \<Rightarrow> string \<Rightarrow> fault + string list" where
  "copy_arg args idx tok =
     (if idx < length args \<and> length tok < PATH_MAX then Inr (args[idx := tok]) else Inl BufferOverflow)"

text \<open>The \<^verbatim>\<open>while (1)\<close> loop over the remaining words; \<open>idx\<close> is the row written last.\<close>

function more_args :: "nat \<Rightarrow> string \<Rightarrow> string list \<Rightarrow> fault + string list \<times> nat" where
  "more_args idx rest args =
     (case strtok rest of
        None \<Rightarrow> Inr (args, idx + 1)
      | Some (tok, rest') \<Rightarrow>
          (case copy_arg args (idx + 1) tok of
             Inl e \<Rightarrow> Inl e
           | Inr args' \<Rightarrow> more_args (idx + 1) rest' args'))"
  by pat_completeness auto

termination
  by (relation "measure (\<lambda>(idx, rest, args). length rest)") (auto dest: strtok_shorter)

declare more_args.simps [simp del]

definition processCommand :: "string \<Rightarrow> string list \<Rightarrow> fault + string list \<times> nat" where
  "processCommand command args =
     (case strtok (map blank command) of
        None \<Rightarrow> Inl NullDeref
      | Some (tok, rest) \<Rightarrow> fbind (copy_arg args 0 tok) (more_args 0 rest))"

section \<open>What it computes\<close>

text \<open>The words of a line: the maximal stretches without blanks.\<close>

fun words :: "string \<Rightarrow> string list" where
  "words [] = []"
| "words (c # s) =
     (if blank c = CHR '' '' then words s
      else (case s of
              [] \<Rightarrow> [[c]]
            | d # _ \<Rightarrow> if blank d = CHR '' '' then [c] # words s
                       else (case words s of w # ws \<Rightarrow> (c # w) # ws | [] \<Rightarrow> [[c]])))"

lemma blank_idem [simp]: "blank (blank c) = blank c"
  by (simp add: blank_def)

lemma blank_other: "blank c \<noteq> CHR '' '' \<Longrightarrow> blank c = c"
  by (auto simp: blank_def split: if_splits)

lemma words_Nil_iff: "words s = [] \<longleftrightarrow> (\<forall>c\<in>set s. blank c = CHR '' '')"
  by (induction s) (auto split: list.splits)

lemma words_blanks: "words (takeWhile (\<lambda>c. blank c = CHR '' '') s @ r) = words r"
  by (induction s) auto

lemma words_skip: "words s = words (dropWhile (\<lambda>c. blank c = CHR '' '') s)"
  using words_blanks [of s "dropWhile (\<lambda>c. blank c = CHR '' '') s"] by simp

lemma words_first:
  "s \<noteq> [] \<Longrightarrow> blank (hd s) \<noteq> CHR '' '' \<Longrightarrow>
   words s = takeWhile (\<lambda>c. blank c \<noteq> CHR '' '') s # words (dropWhile (\<lambda>c. blank c \<noteq> CHR '' '') s)"
proof (induction s)
  case (Cons c s)
  show ?case
  proof (cases s)
    case (Cons d s')
    show ?thesis
    proof (cases "blank d = CHR '' ''")
      case True
      with Cons Cons.prems show ?thesis by simp
    next
      case False
      with Cons.IH Cons have "words s = takeWhile (\<lambda>c. blank c \<noteq> CHR '' '') s #
          words (dropWhile (\<lambda>c. blank c \<noteq> CHR '' '') s)" by simp
      with False Cons Cons.prems show ?thesis by simp
    qed
  qed (use Cons.prems in simp)
qed simp

lemma words_drop1:
  "words (dropWhile (\<lambda>c. blank c \<noteq> CHR '' '') s) = words (drop 1 (dropWhile (\<lambda>c. blank c \<noteq> CHR '' '') s))"
proof (cases "dropWhile (\<lambda>c. blank c \<noteq> CHR '' '') s")
  case (Cons c r)
  then have "blank c = CHR '' ''" using hd_dropWhile [of "\<lambda>c. blank c \<noteq> CHR '' ''" s] by simp
  with Cons show ?thesis by simp
qed (simp only: drop_Nil words.simps)

text \<open>\<^verbatim>\<open>strtok\<close> on the blanked line takes the words one after the other.\<close>

lemma takeWhile_blank:
  "takeWhile (\<lambda>c. c \<noteq> CHR '' '') (map blank s) = takeWhile (\<lambda>c. blank c \<noteq> CHR '' '') s"
proof (induction s)
  case (Cons c s)
  then show ?case using blank_other [of c] by simp
qed simp

lemma dropWhile_blank:
  "dropWhile (\<lambda>c. c \<noteq> CHR '' '') (map blank s) = map blank (dropWhile (\<lambda>c. blank c \<noteq> CHR '' '') s)"
  "dropWhile (\<lambda>c. c = CHR '' '') (map blank s) = map blank (dropWhile (\<lambda>c. blank c = CHR '' '') s)"
  by (simp_all add: dropWhile_map comp_def)

lemma strtok_words:
  "strtok (map blank s) =
     (case words s of
        [] \<Rightarrow> None
      | w # ws \<Rightarrow> Some (w, map blank (drop 1 (dropWhile (\<lambda>c. blank c \<noteq> CHR '' '')
          (dropWhile (\<lambda>c. blank c = CHR '' '') s)))))"
  "words s = w # ws \<Longrightarrow>
   words (drop 1 (dropWhile (\<lambda>c. blank c \<noteq> CHR '' '') (dropWhile (\<lambda>c. blank c = CHR '' '') s))) = ws"
proof -
  let ?r = "dropWhile (\<lambda>c. blank c = CHR '' '') s"
  have first: "words s = takeWhile (\<lambda>c. blank c \<noteq> CHR '' '') ?r #
      words (drop 1 (dropWhile (\<lambda>c. blank c \<noteq> CHR '' '') ?r))" if "?r \<noteq> []"
    using that words_first [OF that] hd_dropWhile [OF that] words_skip [of s] words_drop1 [of ?r] by simp
  show "words s = w # ws \<Longrightarrow> words (drop 1 (dropWhile (\<lambda>c. blank c \<noteq> CHR '' '') ?r)) = ws"
    using first words_skip [of s] by (cases "?r = []") auto
  show "strtok (map blank s) =
     (case words s of
        [] \<Rightarrow> None
      | w # ws \<Rightarrow> Some (w, map blank (drop 1 (dropWhile (\<lambda>c. blank c \<noteq> CHR '' '') ?r))))"
  proof (cases "?r = []")
    case True
    then have "words s = []" by (subst words_skip) (simp only: words.simps)
    with True show ?thesis by (simp add: strtok_def dropWhile_blank Let_def)
  next
    case False
    then show ?thesis
      using first by (simp add: strtok_def dropWhile_blank takeWhile_blank drop_map Let_def)
  qed
qed

text \<open>Where the words fit, they replace the first rows; the other rows keep what they held.\<close>

lemma more_args_words:
  assumes "idx < length args"
  shows "more_args idx (map blank s) args =
     (if idx + length (words s) < length args \<and> (\<forall>w\<in>set (words s). length w < PATH_MAX)
      then Inr (take (idx + 1) args @ words s @ drop (idx + 1 + length (words s)) args,
                idx + 1 + length (words s))
      else Inl BufferOverflow)"
  using assms
proof (induction "words s" arbitrary: s idx args)
  case Nil
  then have "words s = []" by simp
  with Nil.prems show ?case by (simp add: more_args.simps [of idx "map blank s"] strtok_words(1))
next
  case (Cons w ws)
  let ?r = "drop 1 (dropWhile (\<lambda>c. blank c \<noteq> CHR '' '') (dropWhile (\<lambda>c. blank c = CHR '' '') s))"
  have s: "words s = w # ws" using Cons.hyps(2) by simp
  obtain r where r: "words r = ws" and "strtok (map blank s) = Some (w, map blank r)"
    using strtok_words(2) [OF s] strtok_words(1) [of s] s by simp
  then have step: "more_args idx (map blank s) args =
      (case copy_arg args (idx + 1) w of
         Inl e \<Rightarrow> Inl e | Inr args' \<Rightarrow> more_args (idx + 1) (map blank r) args')"
    by (simp add: more_args.simps [of idx "map blank s"])
  show ?case
  proof (cases "idx + 1 < length args \<and> length w < PATH_MAX")
    case False
    with Cons.prems show ?thesis by (auto simp: step copy_arg_def s)
  next
    case True
    have "take (idx + 2) (args[idx + 1 := w]) = take (idx + 1) args @ [w]"
      using True by (simp add: take_Suc_conv_app_nth)
    with True Cons.hyps(1) [OF r [symmetric], of "idx + 1" "args[idx + 1 := w]"]
    show ?thesis by (simp add: step copy_arg_def s r)
  qed
qed

lemma processCommand_words:
  assumes "args \<noteq> []"
  shows "processCommand line args =
    (if words line = [] then Inl NullDeref
     else if length (words line) \<le> length args \<and> (\<forall>w\<in>set (words line). length w < PATH_MAX)
     then Inr (words line @ drop (length (words line)) args, length (words line))
     else Inl BufferOverflow)"
proof (cases "words line")
  case Nil
  then show ?thesis by (simp add: processCommand_def strtok_words(1))
next
  case (Cons w ws)
  let ?r = "drop 1 (dropWhile (\<lambda>c. blank c \<noteq> CHR '' '') (dropWhile (\<lambda>c. blank c = CHR '' '') line))"
  have "processCommand line args =
      fbind (copy_arg args 0 w) (more_args 0 (map blank ?r))"
    by (simp add: processCommand_def strtok_words(1) Cons)
  moreover have "take 1 (args[0 := w]) = [w]" using assms by (cases args) auto
  ultimately show ?thesis
    using assms more_args_words [of 0 "args[0 := w]" ?r] strtok_words(2) [OF Cons] Cons
    by (auto simp: copy_arg_def Suc_le_eq)
qed

text \<open>Words separated by blanks are read back, whatever the blanks.\<close>

definition blanks :: "string \<Rightarrow> bool" where
  "blanks b \<longleftrightarrow> (\<forall>c\<in>set b. blank c = CHR '' '')"

definition word :: "string \<Rightarrow> bool" where
  "word w \<longleftrightarrow> w \<noteq> [] \<and> (\<forall>c\<in>set w. blank c \<noteq> CHR '' '')"

lemma words_append_blank: "blanks b \<Longrightarrow> words (b @ s) = words s"
  by (induction b) (auto simp: blanks_def)

lemma words_word: "word w \<Longrightarrow> r = [] \<or> blank (hd r) = CHR '' '' \<Longrightarrow> words (w @ r) = w # words r"
proof -
  assume w: "word w" and r: "r = [] \<or> blank (hd r) = CHR '' ''"
  have "takeWhile (\<lambda>c. blank c \<noteq> CHR '' '') (w @ r) = w" "dropWhile (\<lambda>c. blank c \<noteq> CHR '' '') (w @ r) = r"
    using w r by (cases r; simp add: word_def takeWhile_append dropWhile_append)+
  moreover have "w @ r \<noteq> []" "blank (hd (w @ r)) \<noteq> CHR '' ''" using w by (auto simp: word_def hd_append)
  ultimately show ?thesis using words_first by metis
qed

fun spaced :: "(string \<times> string) list \<Rightarrow> string" where
  "spaced [] = []"
| "spaced ((w, b) # wbs) = w @ b @ spaced wbs"

lemma words_spaced:
  "list_all (\<lambda>(w, b). word w \<and> blanks b \<and> b \<noteq> []) wbs \<Longrightarrow> words (spaced wbs) = map fst wbs"
proof (induction wbs)
  case (Cons wb wbs)
  obtain w b where wb: "wb = (w, b)" by (cases wb)
  have b: "blanks b" "b \<noteq> []" "word w" using Cons.prems wb by auto
  then have "blank (hd (b @ spaced wbs)) = CHR '' ''" by (cases b) (auto simp: blanks_def)
  with b Cons wb show ?case by (simp add: words_word words_append_blank)
qed simp

text \<open>
  Claim C32. \<^verbatim>\<open>processCommand\<close> finds the words of a line, however they are blanked apart, and puts
  them into the first rows; the rows behind keep the words of earlier commands.
\<close>

theorem processCommand_reads_words:
  assumes "blanks lead" and "list_all (\<lambda>(w, b). word w \<and> blanks b \<and> b \<noteq> []) wbs" and "wbs \<noteq> []"
    and "length wbs \<le> length args" and "\<forall>w\<in>set (map fst wbs). length w < PATH_MAX"
  shows "processCommand (lead @ spaced wbs) args =
    Inr (map fst wbs @ drop (length wbs) args, length wbs)"
proof -
  have "words (lead @ spaced wbs) = map fst wbs"
    using words_append_blank [OF assms(1)] words_spaced [OF assms(2)] by simp
  moreover have "args \<noteq> []" using assms(3,4) by auto
  ultimately show ?thesis using assms(3-5) by (simp add: processCommand_words)
qed

theorem processCommand_reads_words_witness:
  "processCommand ''READ a.txt '' [''CREATE'', ''d'', ''f''] = Inr ([''READ'', ''a.txt'', ''f''], 2)"
  using processCommand_reads_words [of "[]" "[(''READ'', '' ''), (''a.txt'', '' '')]" "[''CREATE'', ''d'', ''f'']"]
  by (simp add: blanks_def word_def blank_def)

text \<open>
  Claim C33. The three ways a line goes: an empty or blank line makes \<^verbatim>\<open>processCommand\<close> copy from the
  null pointer, too many words or a word that is too long make it write past a row, and every
  other line is read.
\<close>

theorem processCommand_faults:
  assumes "args \<noteq> []"
  shows "(processCommand line args = Inl NullDeref \<longleftrightarrow> blanks line) \<and>
    (processCommand line args = Inl BufferOverflow \<longleftrightarrow>
       length args < length (words line) \<or> (\<exists>w\<in>set (words line). PATH_MAX \<le> length w)) \<and>
    (\<forall>rows n. processCommand line args = Inr (rows, n) \<longrightarrow>
       0 < n \<and> n = length (words line) \<and> length rows = length args)"
proof -
  have "blanks line \<longleftrightarrow> words line = []" by (simp add: blanks_def words_Nil_iff)
  then show ?thesis
    by (cases "words line = []") (auto simp: processCommand_words [OF assms] linorder_not_le linorder_not_less)
qed

theorem processCommand_faults_witness:
  "processCommand [CHR 0x0A] [''CREATE'', ''d'', ''f''] = Inl NullDeref"
  using processCommand_faults [of "[''CREATE'', ''d'', ''f'']" "[CHR 0x0A]"]
  by (simp add: blanks_def blank_def)

end
