(* ===== verification/Client.thy ===== *)
theory Client
  imports Command
begin

text \<open>
  clientinit.c: the client. It sends each typed line to the naming server, and for READ, WRITE and
  DETAILS goes on with the storage server whose address it is given.
\<close>

section \<open>Talking to a storage server\<close>

text \<open>The arguments go out one by one, each in a row of \<^verbatim>\<open>PATH_MAX\<close> bytes, each acknowledged.\<close>

primrec send_args :: "nat \<Rightarrow> string list \<Rightarrow> ('z world_scheme, unit) io" where
  "send_args s [] = io_return ()"
| "send_args s (a # as) =
     io_bind (send_or_exit s (buffer PATH_MAX a)) (\<lambda>_.
     io_bind (recv_or_exit s MAX_BUFFER_SIZE) (\<lambda>bs.
     io_bind (received_string MAX_BUFFER_SIZE bs) (\<lambda>ack.
     if strcaseeq ack ''ACK'' then send_args s as else io_exit)))"

text \<open>
  The array of rows is not initialised; the rows behind the words of the command are not sent.
\<close>

definition connectToStorageServer :: "string \<Rightarrow> int \<Rightarrow> string \<Rightarrow> ('z world_scheme, nat) io" where
  "connectToStorageServer storage_server_ip storage_server_port command =
     io_bind (open_socket storage_server_ip storage_server_port) (\<lambda>s.
     io_bind (io_lift (processCommand command (replicate MAX_ARGS []))) (\<lambda>(args, no_args).
     io_bind (send_or_exit s (int_bytes (int no_args))) (\<lambda>_.
     io_bind (send_args s (take no_args args)) (\<lambda>_.
     io_bind (send_or_exit s (buffer MAX_BUFFER_SIZE ''DONE'')) (\<lambda>_.
     io_return s)))))"

section \<open>READ\<close>

text \<open>
  The receiving loop; \<open>False\<close> when it returned 0 because of an error. Every packet but the STOP
  packet is printed.
\<close>

lemma print_line_in: "print_line x w = Done u w' \<Longrightarrow> w_in w' = w_in w"
  by (auto simp: print_line_def happens_def io_simps)

function read_loop :: "nat \<Rightarrow> 'z world_scheme \<Rightarrow> ('z world_scheme, bool) outcome" where
  "read_loop s w =
     io_bind (recv s (CHUNK_SIZE + 1)) (\<lambda>r w.
     case r of
       None \<Rightarrow> io_return False w
     | Some bs \<Rightarrow>
         io_bind (send s (buffer (CHUNK_SIZE + 1) ''ACK'')) (\<lambda>ok w.
         if \<not> ok then io_return False w
         else io_bind (received_string (CHUNK_SIZE + 1) bs) (\<lambda>text w.
              if strcaseeq text ''STOP'' then io_return True w
              else io_bind (print_line text) (\<lambda>_ w. read_loop s w) w) w) w) w"
  by pat_completeness auto

termination
  by (relation "measure (\<lambda>(s, w). in_size (w_in w s))")
     (auto dest!: recv_in_size send_in received_string_same print_line_in)

declare read_loop.simps [simp del]

definition readClientSide :: "nat \<Rightarrow> ('z world_scheme, int) io" where
  "readClientSide s =
     io_bind (read_loop s) (\<lambda>ok.
     if \<not> ok then io_return 0
     else io_bind (close_socket s) (\<lambda>_. io_return 1))"

section \<open>WRITE\<close>

text \<open>\<^verbatim>\<open>fgets\<close> of at most \<open>n - 1\<close> characters; at the end of the input the buffer stays as it was.\<close>

definition fgets :: "nat \<Rightarrow> ('z world_scheme, string option) io" where
  "fgets n w =
     (case w_stdin w of
        [] \<Rightarrow> Done None w
      | l # ls \<Rightarrow>
          Done (Some (take (n - 1) l))
            (w\<lparr>w_stdin := (if length l < n then ls else drop (n - 1) l # ls)\<rparr>))"

text \<open>The sending loop; \<open>False\<close> when it returned 0.\<close>

primrec write_chunks :: "nat \<Rightarrow> string list \<Rightarrow> ('z world_scheme, bool) io" where
  "write_chunks s [] = io_return True"
| "write_chunks s (c # cs) =
     io_bind (send s c) (\<lambda>ok.
     if \<not> ok then io_return False
     else io_bind (recv s (CHUNK_SIZE + 1)) (\<lambda>r.
          case r of
            None \<Rightarrow> io_return False
          | Some bs \<Rightarrow>
              io_bind (received_string (CHUNK_SIZE + 1) bs) (\<lambda>ack.
              if strcaseeq ack ''ACK'' then write_chunks s cs else io_return False)))"

text \<open>
  The name of the local file is the first word of the line; without one \<^verbatim>\<open>file_name\<close> is never set.
\<close>

definition writeClientSide :: "nat \<Rightarrow> ('z world_scheme, int) io" where
  "writeClientSide s =
     io_bind (fgets PATH_MAX) (\<lambda>line.
     case (case line of None \<Rightarrow> None | Some l \<Rightarrow> scan_s l) of
       None \<Rightarrow> io_fault Uninitialised
     | Some file_name \<Rightarrow>
         io_bind (open_read file_name) (\<lambda>file_read.
         case file_read of
           None \<Rightarrow> io_bind (close_socket s) (\<lambda>_. io_return 0)
         | Some content \<Rightarrow>
             io_bind (write_chunks s (chunks content)) (\<lambda>ok.
             if \<not> ok then io_return 0
             else send_or_0 s (buffer (CHUNK_SIZE + 1) ''STOP'')
                    (io_bind (close_socket s) (\<lambda>_. io_return 1)))))"

section \<open>DETAILS\<close>

text \<open>Scanning the numbers of the details line: \<^verbatim>\<open>%ld\<close>, \<^verbatim>\<open>%d\<close> and \<^verbatim>\<open>%o\<close>.\<close>

definition digit_value :: "char \<Rightarrow> int" where
  "digit_value c = of_char c - 48"

definition is_digit_of :: "int \<Rightarrow> char \<Rightarrow> bool" where
  "is_digit_of base c \<longleftrightarrow> 0 \<le> digit_value c \<and> digit_value c < base"

definition scan_int :: "int \<Rightarrow> string \<Rightarrow> (int \<times> string) option" where
  "scan_int base s =
     (let s = skip_space s;
          neg = (s \<noteq> [] \<and> hd s = CHR ''-'');
          s = (if neg \<or> s \<noteq> [] \<and> hd s = CHR ''+'' then tl s else s);
          ds = takeWhile (is_digit_of base) s;
          v = foldl (\<lambda>a c. base * a + digit_value c) 0 ds
      in if ds = [] then None else Some (if neg then - v else v, drop (length ds) s))"

definition scan_word :: "string \<Rightarrow> (string \<times> string) option" where
  "scan_word s =
     (let s = skip_space s; w = takeWhile (\<lambda>c. \<not> is_space c) s
      in if w = [] then None else Some (w, drop (length w) s))"

definition scan_details :: "string \<Rightarrow> (string \<times> int \<times> int \<times> int \<times> int \<times> int) option" where
  "scan_details s =
     do { (name, s) \<leftarrow> scan_word s;
          (sz, s) \<leftarrow> scan_int 10 s;
          (mode, s) \<leftarrow> scan_int 8 s;
          (uid, s) \<leftarrow> scan_int 10 s;
          (gid, s) \<leftarrow> scan_int 10 s;
          (mtime, s) \<leftarrow> scan_int 10 s;
          Some (name, sz, mode, uid, gid, mtime) }"

text \<open>
  What is printed: the six fields. The text of \<^verbatim>\<open>ctime\<close> depends on the time zone and is a
  parameter. A field that was not scanned is printed without ever having been set.
\<close>

definition fileDetailsClientSide :: "(int \<Rightarrow> string) \<Rightarrow> nat \<Rightarrow> ('z world_scheme, int) io" where
  "fileDetailsClientSide ctime s =
     recv_or_0 s MAX_BUFFER_SIZE (\<lambda>bs.
     io_bind (received_string MAX_BUFFER_SIZE bs) (\<lambda>text.
     case scan_details text of
       None \<Rightarrow> io_fault Uninitialised
     | Some (name, sz, mode, uid, gid, mtime) \<Rightarrow>
         if PATH_MAX \<le> length name \<or> 50 \<le> length (ctime mtime) then io_fault BufferOverflow
         else
         io_bind (print_line name) (\<lambda>_.
         io_bind (print_line (show_int sz)) (\<lambda>_.
         io_bind (print_line (show_oct (nat mode))) (\<lambda>_.
         io_bind (print_line (show_int uid)) (\<lambda>_.
         io_bind (print_line (show_int gid)) (\<lambda>_.
         io_bind (print_line (ctime mtime)) (\<lambda>_.
         send_or_0 s (buffer MAX_BUFFER_SIZE ''ACK'')
           (io_bind (close_socket s) (\<lambda>_. io_return 1))))))))))"

section \<open>The command loop\<close>

text \<open>
  What both READ/WRITE and DETAILS do with the address of the storage server: two packets, the
  IP into 16 zeroed bytes and the port into an uninitialised integer (\<open>junk\<close>).
\<close>

definition receive_address :: "int \<Rightarrow> nat \<Rightarrow> ('z world_scheme, string \<times> int) io" where
  "receive_address junk ns =
     io_bind (recv_or_exit ns 16) (\<lambda>bs.
     io_bind (received_string 16 bs) (\<lambda>ip.
     io_bind (recv_or_exit ns 4) (\<lambda>bs.
     io_return (ip, int_received junk bs))))"

text \<open>
  One turn of the \<^verbatim>\<open>while (1)\<close> of \<^verbatim>\<open>main\<close>, on the socket \<open>ns\<close> of the naming server: read a line, send
  it, act on the command type that comes back. The result says whether the loop is left. Of the
  messages on the terminal those that tell success from failure are kept. The test for an empty
  line compares with a newline followed by the colour \<^verbatim>\<open>white\<close>.
\<close>

definition client_executed :: "nat \<Rightarrow> ('z world_scheme, bool) io" where
  "client_executed ns =
     io_bind (recv_or_exit ns MAX_BUFFER_SIZE) (\<lambda>bs.
     io_bind (received_string MAX_BUFFER_SIZE bs) (\<lambda>answer.
     io_bind (print_line (if strcaseeq answer ''ACK'' then ''Successfully executed command''
                          else ''Error executing command.'')) (\<lambda>_.
     io_return False)))"

definition client_served :: "(int \<Rightarrow> string) \<Rightarrow> int \<Rightarrow> nat \<Rightarrow> string \<Rightarrow> int \<Rightarrow> ('z world_scheme, bool) io" where
  "client_served ctime junk ns command command_type =
     io_bind (recv_or_exit ns MAX_BUFFER_SIZE) (\<lambda>bs.
     io_bind (received_string MAX_BUFFER_SIZE bs) (\<lambda>answer.
     if strcaseeq answer ''FOUND''
     then io_bind (receive_address junk ns) (\<lambda>(ip, port).
          io_bind (connectToStorageServer ip port command) (\<lambda>s.
          io_bind (if command_type = 2 then readClientSide s
                   else if command_type = 3 then writeClientSide s
                   else fileDetailsClientSide ctime s) (\<lambda>result.
          io_bind (print_line (if result = 0 then ''Error'' else ''Success'')) (\<lambda>_.
          io_return False))))
     else io_bind (print_line answer) (\<lambda>_. io_return False)))"

definition client_other :: "int \<Rightarrow> ('z world_scheme, bool) io" where
  "client_other command_type =
     (if command_type = 5
      then io_bind (print_line ''Exiting'') (\<lambda>_. io_return True)
      else if command_type = 6
      then io_bind (print_line ''Incorrect command'') (\<lambda>_. io_return False)
      else io_return False)"

definition client_turn :: "(int \<Rightarrow> string) \<Rightarrow> int \<Rightarrow> nat \<Rightarrow> ('z world_scheme, bool) io" where
  "client_turn ctime junk ns =
     io_bind (fgets MAX_BUFFER_SIZE) (\<lambda>line.
     let command = (case line of None \<Rightarrow> [] | Some l \<Rightarrow> cstr l)
     in if strcaseeq command (CHR 0x0A # white)
        then io_bind (print_line ''Empty command'') (\<lambda>_. io_return False)
        else
        io_bind (send_or_exit ns (buffer MAX_BUFFER_SIZE command)) (\<lambda>_.
        io_bind (recv_or_exit ns 4) (\<lambda>bs.
        let command_type = int_received 0 bs
        in if command_type = 1 then client_executed ns
           else if command_type = 2 \<or> command_type = 3 \<or> command_type = 4
           then client_served ctime junk ns command command_type
           else client_other command_type)))"

lemmas client_turn_defs = client_turn_def client_executed_def client_served_def client_other_def

text \<open>At most \<open>n\<close> turns of the loop; the result says whether it has been left.\<close>

primrec client_turns :: "(int \<Rightarrow> string) \<Rightarrow> int \<Rightarrow> nat \<Rightarrow> nat \<Rightarrow> ('z world_scheme, bool) io" where
  "client_turns ctime junk ns 0 = io_return False"
| "client_turns ctime junk ns (Suc n) =
     io_bind (client_turn ctime junk ns) (\<lambda>left.
     if left then io_return True else client_turns ctime junk ns n)"

definition client_main :: "(int \<Rightarrow> string) \<Rightarrow> int \<Rightarrow> nat \<Rightarrow> ('z world_scheme, bool) io" where
  "client_main ctime junk n =
     io_bind (open_socket ''127.0.0.1'' NAMING_SERVER_PORT) (\<lambda>ns.
     io_bind (send_or_exit ns (buffer MAX_BUFFER_SIZE ''c'')) (\<lambda>_.
     io_bind (recv_or_exit ns MAX_BUFFER_SIZE) (\<lambda>bs.
     io_bind (received_string MAX_BUFFER_SIZE bs) (\<lambda>greeting.
     io_bind (print_line greeting) (\<lambda>_.
     io_bind (client_turns ctime junk ns n) (\<lambda>left.
     if left then io_bind (close_socket ns) (\<lambda>_. io_return True) else io_return False))))))"

end
