(* ===== verification/Lru.thy ===== *)
theory Lru
  imports Map_Operations_Correct
begin

text \<open>
  LRU/lru.c and LRU/lru.h: the cache of recently used paths. A doubly linked list between two
  sentinels keeps the order, a hash map finds the node of a key. Nodes live in a heap and hold a
  pointer to the key string, which stays in the caller's memory.
\<close>

section \<open>The state\<close>

type_synonym addr = "64 word"

record node =
  n_key :: addr
  n_val :: int
  n_next :: addr
  n_prev :: addr

text \<open>
  The cache with the memory it refers to: the nodes and the C strings at their addresses.
\<close>

record lru =
  lru_nodes :: "addr \<Rightarrow> node option"
  lru_strings :: "addr \<Rightarrow> string option"
  lru_head :: addr
  lru_tail :: addr
  lru_capacity :: int
  lru_map :: hashmap
  lru_map_size :: int

definition load_node :: "lru \<Rightarrow> addr \<Rightarrow> fault + node" where
  "load_node s p =
     (case lru_nodes s p of
        Some nd \<Rightarrow> Inr nd
      | None \<Rightarrow> Inl (if p = 0 then NullDeref else OutOfBounds))"

definition load_string :: "lru \<Rightarrow> addr \<Rightarrow> fault + string" where
  "load_string s p =
     (case lru_strings s p of
        Some k \<Rightarrow> Inr k
      | None \<Rightarrow> Inl (if p = 0 then NullDeref else OutOfBounds))"

definition store_node :: "lru \<Rightarrow> addr \<Rightarrow> node \<Rightarrow> lru" where
  "store_node s p nd = s\<lparr>lru_nodes := (lru_nodes s)(p \<mapsto> nd)\<rparr>"

section \<open>The map of the cache\<close>

definition set_value_lr :: "hashmap \<Rightarrow> string \<Rightarrow> addr \<Rightarrow> fault + hashmap" where
  "set_value_lr m key val =
     fbind (sprintf_key (length key) key) (\<lambda>temp. returns (hashmap_set m temp (length temp) val))"

definition get_value_lr :: "hashmap \<Rightarrow> string \<Rightarrow> fault + addr" where
  "get_value_lr m key =
     fbind (sprintf_key (length key) key) (\<lambda>temp.
       fbind (returns (hashmap_get m temp (length temp))) (\<lambda>(found, result).
         Inr (if found then result else 0)))"

definition remove_entry_lr :: "hashmap \<Rightarrow> string \<Rightarrow> fault + hashmap" where
  "remove_entry_lr m key =
     fbind (sprintf_key (length key) key) (\<lambda>temp. returns (hashmap_remove m temp (length temp)))"

section \<open>The list\<close>

definition addNode :: "lru \<Rightarrow> addr \<Rightarrow> fault + lru" where
  "addNode s newnode =
     fbind (load_node s (lru_head s)) (\<lambda>head.
       let headnext = n_next head;
           s = store_node s (lru_head s) (head\<lparr>n_next := newnode\<rparr>)
       in fbind (load_node s newnode) (\<lambda>nd.
            let s = store_node s newnode (nd\<lparr>n_prev := lru_head s, n_next := headnext\<rparr>)
            in fbind (load_node s headnext) (\<lambda>hn.
                 Inr (store_node s headnext (hn\<lparr>n_prev := newnode\<rparr>)))))"

definition deleteNode :: "lru \<Rightarrow> addr \<Rightarrow> fault + lru" where
  "deleteNode s delnode =
     fbind (load_node s delnode) (\<lambda>nd.
       let prevv = n_prev nd; nextt = n_next nd
       in fbind (load_node s prevv) (\<lambda>pn.
            let s = store_node s prevv (pn\<lparr>n_next := nextt\<rparr>)
            in fbind (load_node s nextt) (\<lambda>nn.
                 Inr (store_node s nextt (nn\<lparr>n_prev := prevv\<rparr>)))))"

text \<open>
  \<^verbatim>\<open>createLRU\<close>: the two sentinels are at the addresses that \<^verbatim>\<open>malloc\<close> returned; \<open>lit\<close> is the
  address of the literal \<open>"#"\<close>. The outer pointers of the sentinels are not initialised; they
  are left as \<open>junk\<close>.
\<close>

definition createLRU :: "(addr \<Rightarrow> string option) \<Rightarrow> addr \<Rightarrow> addr \<Rightarrow> addr \<Rightarrow> addr \<Rightarrow> hashmap \<Rightarrow> int \<Rightarrow> lru" where
  "createLRU strings lit junk h t m capacity =
     \<lparr>lru_nodes = [h \<mapsto> \<lparr>n_key = lit, n_val = - 1, n_next = t, n_prev = junk\<rparr>,
                   t \<mapsto> \<lparr>n_key = lit, n_val = - 1, n_next = junk, n_prev = h\<rparr>],
      lru_strings = strings(lit \<mapsto> ''#''),
      lru_head = h, lru_tail = t, lru_capacity = capacity, lru_map = m, lru_map_size = 0\<rparr>"

section \<open>Lookup and insertion\<close>

definition get_LRU :: "lru \<Rightarrow> addr \<Rightarrow> fault + int \<times> lru" where
  "get_LRU s key =
     fbind (load_string s key) (\<lambda>k.
     fbind (get_value_lr (lru_map s) k) (\<lambda>resNode.
       if resNode \<noteq> 0
       then fbind (load_node s resNode) (\<lambda>nd.
            let ans = n_val nd
            in fbind (remove_entry_lr (lru_map s) k) (\<lambda>m.
               let s = s\<lparr>lru_map := m, lru_map_size := lru_map_size s - 1\<rparr>
               in fbind (deleteNode s resNode) (\<lambda>s.
                  fbind (addNode s resNode) (\<lambda>s.
                  fbind (load_node s (lru_head s)) (\<lambda>head.
                  fbind (set_value_lr (lru_map s) k (n_next head)) (\<lambda>m.
                  Inr (ans, s\<lparr>lru_map := m, lru_map_size := lru_map_size s + 1\<rparr>)))))))
       else Inr (- 1, s)))"

text \<open>
  \<^verbatim>\<open>put_LRU\<close>, in the two parts the code has: forgetting the node of the key, then the oldest node
  when the cache is full; and linking the new node, whose address \<open>a\<close> \<^verbatim>\<open>malloc\<close> returned. The
  list pointers of the new node are junk until \<^verbatim>\<open>addNode\<close> sets them.
\<close>

definition put_forget :: "lru \<Rightarrow> string \<Rightarrow> fault + lru" where
  "put_forget s k =
     fbind (get_value_lr (lru_map s) k) (\<lambda>curr.
       if curr \<noteq> 0
       then fbind (remove_entry_lr (lru_map s) k) (\<lambda>m.
              deleteNode (s\<lparr>lru_map := m, lru_map_size := lru_map_size s - 1\<rparr>) curr)
       else Inr s)"

definition put_evict :: "lru \<Rightarrow> fault + lru" where
  "put_evict s =
     (if lru_map_size s = lru_capacity s
      then fbind (load_node s (lru_tail s)) (\<lambda>tail.
           fbind (load_node s (n_prev tail)) (\<lambda>old.
           fbind (load_string s (n_key old)) (\<lambda>k.
           fbind (remove_entry_lr (lru_map s) k) (\<lambda>m.
           fbind (deleteNode (s\<lparr>lru_map := m\<rparr>) (n_prev tail)) (\<lambda>s.
             Inr (s\<lparr>lru_map_size := lru_map_size s - 1\<rparr>))))))
      else Inr s)"

definition put_LRU :: "lru \<Rightarrow> addr \<Rightarrow> int \<Rightarrow> addr \<Rightarrow> addr \<Rightarrow> fault + lru" where
  "put_LRU s key value a junk =
     fbind (load_string s key) (\<lambda>k.
     fbind (put_forget s k) (\<lambda>s.
     fbind (put_evict s) (\<lambda>s.
       let s = store_node s a \<lparr>n_key = key, n_val = value, n_next = junk, n_prev = junk\<rparr>
       in fbind (addNode s a) (\<lambda>s.
          fbind (load_node s (lru_head s)) (\<lambda>head.
          fbind (set_value_lr (lru_map s) k (n_next head)) (\<lambda>m.
            Inr (s\<lparr>lru_map := m, lru_map_size := lru_map_size s + 1\<rparr>)))))))"

end
