(* ===== verification/Lru_Correct.thy ===== *)
theory Lru_Correct
  imports Lru
begin

text \<open>
  What the cache promises: it is a list of keys and values, most recently used first. The theory
  has the shape of the doubly linked list, the contract of the map of nodes as another use of the
  interface of keyed maps, and the refinement of lookup and insertion.
\<close>

section \<open>The map from keys to nodes\<close>

definition lru_enc :: "string \<Rightarrow> (string \<times> nat) option" where
  "lru_enc p = (case sprintf_key (length p) p of Inl e \<Rightarrow> None | Inr t \<Rightarrow> Some (t, length t))"

lemma lru_enc_Some: "lru_enc p = Some (t, n) \<longleftrightarrow> sprintf_key (length p) p = Inr t \<and> n = length t"
  by (auto simp: lru_enc_def split: sum.split)

interpretation lm: keyed_map hm_inv hm_entries hashmap_set hashmap_get hashmap_remove lru_enc
proof (unfold_locales, goal_cases)
  case (1 p t n)
  then show ?case by (simp add: lru_enc_Some)
next
  case (2 p t n q u k)
  then show ?case using printed_inj [of "length p" p t "length q" q] by (simp add: lru_enc_Some)
qed

definition lru_key :: "string \<Rightarrow> bool" where
  "lru_key k \<longleftrightarrow> (\<exists>t. sprintf_key (length k) k = Inr t)"

lemma lru_key_fits: "k \<noteq> [] \<Longrightarrow> length k \<le> 4090 \<Longrightarrow> lru_key k"
proof -
  assume k: "k \<noteq> []" "length k \<le> 4090"
  then have "length (show_int (int (length k))) \<le> 4"
    using show_nat_length [of "length k" 4] by (simp add: show_int_def)
  with k schar_length [of "last k"] show ?thesis by (simp add: lru_key_def sprintf_key_def Let_def)
qed

lemma lru_key_enc: "lru_key k \<Longrightarrow> \<exists>t. lru_enc k = Some (t, length t) \<and> sprintf_key (length k) k = Inr t"
  by (auto simp: lru_key_def lru_enc_Some)

text \<open>The map stands for a function from keys to nodes, none at the null address.\<close>

definition lmap :: "hashmap \<Rightarrow> (string \<Rightarrow> addr option) \<Rightarrow> bool" where
  "lmap m f \<longleftrightarrow> hm_inv m \<and> (\<forall>k. f k \<noteq> Some 0) \<and>
     (\<forall>k. lru_key k \<longrightarrow> get_value_lr m k = Inr (case f k of None \<Rightarrow> 0 | Some a \<Rightarrow> a))"

lemma get_value_lr_enc:
  "lru_enc k = Some (t, n) \<Longrightarrow>
   get_value_lr m k = fbind (returns (hashmap_get m t n)) (\<lambda>(found, r). Inr (if found then r else 0))"
  by (simp add: lru_enc_Some get_value_lr_def)

lemma lmap_create: "lmap hashmap_create (\<lambda>_. None)"
proof -
  have "get_value_lr hashmap_create k = Inr 0" if "lru_key k" for k
    using lru_key_enc [OF that] hm.get_law [OF hashmap_create_correct(1)]
    by (auto simp: get_value_lr_enc hashmap_create_correct(2) ents_get_def)
  then show ?thesis by (simp add: lmap_def hashmap_create_correct)
qed

lemma set_value_lr_law:
  assumes m: "lmap m f" and k: "lru_key k" and a: "a \<noteq> 0"
  obtains m' where "set_value_lr m k a = Inr m'" "lmap m' (f(k \<mapsto> a))"
proof -
  from lru_key_enc [OF k] obtain t where
    t: "lru_enc k = Some (t, length t)" "sprintf_key (length k) k = Inr t" by auto
  have inv: "hm_inv m" using m by (simp add: lmap_def)
  from lm.put_returns [OF inv t(1), of a] obtain m' where
    m': "hashmap_set m t (length t) a = Some m'" "hm_inv m'" by auto
  have "get_value_lr m' q = Inr (case (f(k \<mapsto> a)) q of None \<Rightarrow> 0 | Some a \<Rightarrow> a)" if q: "lru_key q" for q
  proof -
    from lru_key_enc [OF q] obtain u where u: "lru_enc q = Some (u, length u)" by auto
    from lm.lookup_put [OF inv t(1) u m'(1)]
    have "get_value_lr m' q = (if q = k then Inr a else get_value_lr m q)"
      by (simp add: get_value_lr_enc [OF u])
    with m q show ?thesis by (simp add: lmap_def)
  qed
  with m m'(2) a have "lmap m' (f(k \<mapsto> a))" by (simp add: lmap_def)
  moreover have "set_value_lr m k a = Inr m'" using t(2) m'(1) by (simp add: set_value_lr_def)
  ultimately show thesis using that by blast
qed

lemma remove_entry_lr_law:
  assumes m: "lmap m f" and k: "lru_key k"
  obtains m' where "remove_entry_lr m k = Inr m'" "lmap m' (f(k := None))"
proof -
  from lru_key_enc [OF k] obtain t where
    t: "lru_enc k = Some (t, length t)" "sprintf_key (length k) k = Inr t" by auto
  have inv: "hm_inv m" using m by (simp add: lmap_def)
  from hm.del_law [OF inv, of "length t" t] obtain m' where
    m': "hashmap_remove m t (length t) = Some m'" "hm_inv m'" by auto
  have "get_value_lr m' q = Inr (case (f(k := None)) q of None \<Rightarrow> 0 | Some a \<Rightarrow> a)" if q: "lru_key q" for q
  proof -
    from lru_key_enc [OF q] obtain u where u: "lru_enc q = Some (u, length u)" by auto
    from lm.lookup_del [OF inv t(1) u m'(1)]
    have "get_value_lr m' q = (if q = k then Inr 0 else get_value_lr m q)"
      by (simp add: get_value_lr_enc [OF u])
    with m q show ?thesis by (simp add: lmap_def)
  qed
  with m m'(2) have "lmap m' (f(k := None))" by (simp add: lmap_def)
  moreover have "remove_entry_lr m k = Inr m'" using t(2) m'(1) by (simp add: remove_entry_lr_def)
  ultimately show thesis using that by blast
qed

lemma get_value_lr_law: "lmap m f \<Longrightarrow> lru_key k \<Longrightarrow> get_value_lr m k = Inr (case f k of None \<Rightarrow> 0 | Some a \<Rightarrow> a)"
  by (simp add: lmap_def)

section \<open>Doubly linked lists\<close>

fun links :: "(addr \<Rightarrow> node option) \<Rightarrow> addr list \<Rightarrow> bool" where
  "links h (x # y # zs) \<longleftrightarrow>
     (\<exists>nx ny. h x = Some nx \<and> h y = Some ny \<and> n_next nx = y \<and> n_prev ny = x) \<and> links h (y # zs)"
| "links h _ \<longleftrightarrow> True"

lemma links_append: "links h (xs @ x # ys) \<longleftrightarrow> links h (xs @ [x]) \<and> links h (x # ys)"
proof (induction xs)
  case (Cons a xs)
  then show ?case by (cases xs) auto
qed simp

lemma links_frame: "p \<notin> set xs \<Longrightarrow> links (h(p := v)) xs \<longleftrightarrow> links h xs"
  by (induction h xs rule: links.induct) auto

lemma links_upd_first:
  "h p = Some nd \<Longrightarrow> p \<notin> set ys \<Longrightarrow> n_next nd' = n_next nd \<Longrightarrow>
   links (h(p \<mapsto> nd')) (p # ys) \<longleftrightarrow> links h (p # ys)"
  using links_frame [of p ys h "Some nd'"] by (cases ys) auto

lemma links_upd_last:
  "h p = Some nd \<Longrightarrow> p \<notin> set xs \<Longrightarrow> n_prev nd' = n_prev nd \<Longrightarrow>
   links (h(p \<mapsto> nd')) (xs @ [p]) \<longleftrightarrow> links h (xs @ [p])"
proof (induction xs)
  case (Cons x xs)
  then show ?case by (cases xs) auto
qed simp

text \<open>Unlinking the node between \<open>p\<close> and \<open>q\<close>, and linking one in.\<close>

definition same_data :: "(addr \<Rightarrow> node option) \<Rightarrow> (addr \<Rightarrow> node option) \<Rightarrow> bool" where
  "same_data h h' \<longleftrightarrow>
     (\<forall>p. map_option n_key (h' p) = map_option n_key (h p) \<and> map_option n_val (h' p) = map_option n_val (h p))"

lemma same_data_refl: "same_data h h"
  by (simp add: same_data_def)

lemma same_data_trans: "same_data h h' \<Longrightarrow> same_data h' h'' \<Longrightarrow> same_data h h''"
  by (simp add: same_data_def)

lemma same_data_upd:
  "h p = Some nd \<Longrightarrow> n_key nd' = n_key nd \<Longrightarrow> n_val nd' = n_val nd \<Longrightarrow> same_data h (h(p \<mapsto> nd'))"
  by (simp add: same_data_def)

lemma links_unlink:
  assumes "links h (as @ [p, x, q] @ bs)" and "distinct (as @ [p, x, q] @ bs)"
  obtains np nx nq where "h p = Some np" "h x = Some nx" "h q = Some nq" "n_next nx = q" "n_prev nx = p"
    "links (h(p \<mapsto> np\<lparr>n_next := q\<rparr>, q \<mapsto> nq\<lparr>n_prev := p\<rparr>)) (as @ [p, q] @ bs)"
proof -
  have l: "links h (as @ [p])" "links h [p, x, q]" "links h (q # bs)"
    using assms(1) links_append [of h as p "[x, q] @ bs"] links_append [of h "[p, x]" q bs] by auto
  then obtain np nx nq where n: "h p = Some np" "h x = Some nx" "h q = Some nq"
    "n_next nx = q" "n_prev nx = p" by auto
  let ?h = "h(p \<mapsto> np\<lparr>n_next := q\<rparr>, q \<mapsto> nq\<lparr>n_prev := p\<rparr>)"
  have pq: "p \<noteq> q" "q \<noteq> p" "q \<notin> set (as @ [p])" "p \<notin> set (q # bs)" using assms(2) by auto
  have "links ?h (as @ [p])"
    using assms(2) pq l(1) n links_upd_last [of h p np as "np\<lparr>n_next := q\<rparr>"]
    by (simp add: links_frame)
  moreover have "links ?h (q # bs)"
    using assms(2) l(3) n pq links_upd_first [of "h(p \<mapsto> np\<lparr>n_next := q\<rparr>)" q nq bs "nq\<lparr>n_prev := p\<rparr>"]
    by (simp add: links_frame)
  moreover have "links ?h [p, q]" using n pq by simp
  ultimately have "links ?h (as @ [p, q] @ bs)"
    using links_append [of ?h as p "q # bs"] links_append [of ?h "[p]" q bs] by simp
  with n that show thesis by blast
qed

lemma links_insert:
  assumes "links h (p # q # bs)" and "distinct (p # x # q # bs)"
  obtains np nq where "h p = Some np" "h q = Some nq" "n_next np = q"
    "links (h(p \<mapsto> np\<lparr>n_next := x\<rparr>, x \<mapsto> nx\<lparr>n_prev := p, n_next := q\<rparr>, q \<mapsto> nq\<lparr>n_prev := x\<rparr>)) (p # x # q # bs)"
proof -
  from assms(1) obtain np nq where n: "h p = Some np" "h q = Some nq" "n_next np = q" by auto
  let ?h = "h(p \<mapsto> np\<lparr>n_next := x\<rparr>, x \<mapsto> nx\<lparr>n_prev := p, n_next := q\<rparr>)"
  have ne: "q \<noteq> p" "q \<noteq> x" "q \<notin> set bs" "p \<notin> set (q # bs)" "x \<notin> set (q # bs)" "x \<noteq> p"
    using assms(2) by auto
  have "?h q = Some nq" "q \<notin> set bs" "links ?h (q # bs)"
    using assms(1) n ne by (simp_all add: links_frame)
  then have "links (?h(q \<mapsto> nq\<lparr>n_prev := x\<rparr>)) (q # bs)"
    by (simp add: links_upd_first)
  with n ne have "links (?h(q \<mapsto> nq\<lparr>n_prev := x\<rparr>)) (p # x # q # bs)" by auto
  with n that show thesis by blast
qed

section \<open>The list operations\<close>

text \<open>
  The structure of the cache without its content: the nodes \<open>ps\<close> between the sentinels.
\<close>

definition lru_list :: "lru \<Rightarrow> addr list \<Rightarrow> bool" where
  "lru_list s ps \<longleftrightarrow>
     links (lru_nodes s) (lru_head s # ps @ [lru_tail s]) \<and>
     distinct (lru_head s # ps @ [lru_tail s]) \<and> 0 \<notin> set ps"

lemma deleteNode_list:
  assumes l: "lru_list s ps" and x: "x \<in> set ps"
  obtains h where "\<And>s'. lru_nodes s' = lru_nodes s \<Longrightarrow> deleteNode s' x = Inr (s'\<lparr>lru_nodes := h\<rparr>)"
    "lru_list (s\<lparr>lru_nodes := h\<rparr>) (remove1 x ps)" "same_data (lru_nodes s) h"
proof -
  let ?h = "lru_nodes s"
  from x obtain qs rs where ps: "ps = qs @ x # rs" "x \<notin> set qs" by (meson split_list_first)
  obtain as p where as: "lru_head s # qs = as @ [p]" by (metis append_Cons rev_exhaust list.distinct(1))
  obtain q bs where bs: "rs @ [lru_tail s] = q # bs" by (cases "rs @ [lru_tail s]") auto
  have split: "lru_head s # ps @ [lru_tail s] = as @ [p, x, q] @ bs"
    using as bs ps by (metis append.assoc append_Cons append_Nil)
  have "links ?h (as @ [p, x, q] @ bs)" "distinct (as @ [p, x, q] @ bs)"
    using l unfolding lru_list_def split by blast+
  then obtain np nx nq where n: "?h p = Some np" "?h x = Some nx" "?h q = Some nq" "n_next nx = q" "n_prev nx = p"
    "links (?h(p \<mapsto> np\<lparr>n_next := q\<rparr>, q \<mapsto> nq\<lparr>n_prev := p\<rparr>)) (as @ [p, q] @ bs)"
    by (rule links_unlink)
  let ?k = "?h(p \<mapsto> np\<lparr>n_next := q\<rparr>, q \<mapsto> nq\<lparr>n_prev := p\<rparr>)"
  have "p \<noteq> q" using \<open>distinct (as @ [p, x, q] @ bs)\<close> by auto
  then have del: "deleteNode s' x = Inr (s'\<lparr>lru_nodes := ?k\<rparr>)" if "lru_nodes s' = ?h" for s'
    using n that by (simp add: deleteNode_def load_node_def store_node_def Let_def)
  have rem: "lru_head s # remove1 x ps @ [lru_tail s] = as @ [p, q] @ bs"
  proof -
    have "remove1 x ps = qs @ rs" using ps by (simp add: remove1_append)
    then show ?thesis using as bs by (metis append.assoc append_Cons append_Nil)
  qed
  have "lru_list (s\<lparr>lru_nodes := ?k\<rparr>) (remove1 x ps)"
  proof -
    have "distinct (lru_head s # remove1 x ps @ [lru_tail s])" "0 \<notin> set (remove1 x ps)"
      using l set_remove1_subset [of x ps] by (auto simp: lru_list_def distinct_remove1)
    moreover have "links ?k (lru_head s # remove1 x ps @ [lru_tail s])" using n(6) by (simp only: rem)
    ultimately show ?thesis by (simp add: lru_list_def)
  qed
  moreover have "same_data ?h ?k"
    using n \<open>p \<noteq> q\<close> by (auto simp: same_data_def)
  ultimately show thesis using del that by blast
qed

lemma addNode_list:
  assumes l: "lru_list s ps" and x: "x \<notin> set ps" "x \<noteq> lru_head s" "x \<noteq> lru_tail s" "x \<noteq> 0"
    and nx: "lru_nodes s x = Some nx"
  obtains h nh where "addNode s x = Inr (s\<lparr>lru_nodes := h\<rparr>)" "lru_list (s\<lparr>lru_nodes := h\<rparr>) (x # ps)"
    "same_data (lru_nodes s) h" "h (lru_head s) = Some nh" "n_next nh = x"
proof -
  let ?h = "lru_nodes s" and ?p = "lru_head s"
  obtain q bs where bs: "ps @ [lru_tail s] = q # bs" by (cases "ps @ [lru_tail s]") auto
  have "distinct (?p # x # ps @ [lru_tail s])" using l x by (auto simp: lru_list_def)
  then have d: "distinct (?p # x # q # bs)" by (simp only: bs)
  have "links ?h (?p # q # bs)" using l by (simp add: lru_list_def bs)
  from links_insert [OF this d] obtain np nq where n: "?h ?p = Some np" "?h q = Some nq" "n_next np = q"
    "links (?h(?p \<mapsto> np\<lparr>n_next := x\<rparr>, x \<mapsto> nx\<lparr>n_prev := ?p, n_next := q\<rparr>, q \<mapsto> nq\<lparr>n_prev := x\<rparr>)) (?p # x # q # bs)"
    by metis
  let ?k = "?h(?p \<mapsto> np\<lparr>n_next := x\<rparr>, x \<mapsto> nx\<lparr>n_prev := ?p, n_next := q\<rparr>, q \<mapsto> nq\<lparr>n_prev := x\<rparr>)"
  have "x \<noteq> ?p" "q \<noteq> ?p" "q \<noteq> x" using d by auto
  then have "addNode s x = Inr (s\<lparr>lru_nodes := ?k\<rparr>)"
    using n nx d by (simp add: addNode_def load_node_def store_node_def Let_def)
  moreover have "lru_list (s\<lparr>lru_nodes := ?k\<rparr>) (x # ps)"
    using l n(4) d x by (auto simp: lru_list_def bs)
  moreover have "same_data ?h ?k" using n nx d by (auto simp: same_data_def)
  moreover have "?k ?p = Some (np\<lparr>n_next := x\<rparr>)" using d by simp
  ultimately show thesis using that by fastforce
qed

section \<open>The content\<close>

definition key_of :: "lru \<Rightarrow> addr \<Rightarrow> string" where
  "key_of s p = the (lru_strings s (n_key (the (lru_nodes s p))))"

definition node_entry :: "lru \<Rightarrow> addr \<Rightarrow> string \<times> int" where
  "node_entry s p = (key_of s p, n_val (the (lru_nodes s p)))"

definition readable :: "lru \<Rightarrow> addr \<Rightarrow> bool" where
  "readable s p \<longleftrightarrow>
     (\<exists>nd k. lru_nodes s p = Some nd \<and> lru_strings s (n_key nd) = Some k \<and> lru_key k)"

definition node_of :: "lru \<Rightarrow> addr list \<Rightarrow> string \<Rightarrow> addr option" where
  "node_of s ps = map_of (map (\<lambda>p. (key_of s p, p)) ps)"

definition lru_rep_at :: "lru \<Rightarrow> addr list \<Rightarrow> bool" where
  "lru_rep_at s ps \<longleftrightarrow>
     lru_list s ps \<and> lmap (lru_map s) (node_of s ps) \<and> distinct (map (key_of s) ps) \<and>
     (\<forall>p\<in>set ps. readable s p) \<and> lru_map_size s = int (length ps)"

definition lru_rep :: "lru \<Rightarrow> (string \<times> int) list \<Rightarrow> bool" where
  "lru_rep s xs \<longleftrightarrow> (\<exists>ps. lru_rep_at s ps \<and> xs = map (node_entry s) ps)"

text \<open>The cache as it should be: looking up and inserting move the key to the front.\<close>

definition cache_get :: "(string \<times> int) list \<Rightarrow> string \<Rightarrow> int \<times> (string \<times> int) list" where
  "cache_get xs k =
     (case map_of xs k of None \<Rightarrow> (- 1, xs) | Some v \<Rightarrow> (v, (k, v) # AList.delete k xs))"

definition cache_put :: "int \<Rightarrow> (string \<times> int) list \<Rightarrow> string \<Rightarrow> int \<Rightarrow> (string \<times> int) list" where
  "cache_put c xs k v =
     (k, v) # (let ys = AList.delete k xs in if int (length ys) = c then butlast ys else ys)"

text \<open>Steps that relink nodes leave keys and values alone.\<close>

definition same_content :: "lru \<Rightarrow> lru \<Rightarrow> bool" where
  "same_content s s' \<longleftrightarrow>
     same_data (lru_nodes s) (lru_nodes s') \<and> lru_strings s' = lru_strings s \<and>
     lru_head s' = lru_head s \<and> lru_tail s' = lru_tail s \<and> lru_capacity s' = lru_capacity s"

lemma same_content_trans: "same_content s s' \<Longrightarrow> same_content s' s'' \<Longrightarrow> same_content s s''"
  by (auto simp: same_content_def intro: same_data_trans)

lemma same_data_at:
  assumes "same_data h h'" and "h p = Some nd"
  obtains nd' where "h' p = Some nd'" "n_key nd' = n_key nd" "n_val nd' = n_val nd"
  using assms unfolding same_data_def
  by (metis (no_types, lifting) map_option_eq_Some option.inject)

lemma same_content_at:
  assumes "same_content s s'" and "readable s p"
  shows "key_of s' p = key_of s p" and "node_entry s' p = node_entry s p" and "readable s' p"
proof -
  from assms(2) obtain nd k where nd: "lru_nodes s p = Some nd" "lru_strings s (n_key nd) = Some k" "lru_key k"
    by (auto simp: readable_def)
  obtain nd' where "lru_nodes s' p = Some nd'" "n_key nd' = n_key nd" "n_val nd' = n_val nd"
    using assms(1) nd(1) by (meson same_content_def same_data_at)
  with nd assms(1) show "key_of s' p = key_of s p" "node_entry s' p = node_entry s p" "readable s' p"
    by (simp_all add: same_content_def key_of_def node_entry_def readable_def)
qed

lemma same_content_list:
  assumes "same_content s s'" and "\<forall>p\<in>set ps. readable s p"
  shows "map (key_of s') ps = map (key_of s) ps" and "map (node_entry s') ps = map (node_entry s) ps"
    and "node_of s' ps = node_of s ps" and "\<forall>p\<in>set ps. readable s' p"
proof -
  show "map (key_of s') ps = map (key_of s) ps" "map (node_entry s') ps = map (node_entry s) ps"
    "\<forall>p\<in>set ps. readable s' p"
    using same_content_at [OF assms(1)] assms(2) by simp_all
  have "map (\<lambda>p. (key_of s' p, p)) ps = map (\<lambda>p. (key_of s p, p)) ps"
    using same_content_at [OF assms(1)] assms(2) by simp
  then show "node_of s' ps = node_of s ps" unfolding node_of_def by (rule arg_cong)
qed

lemma node_of_Some:
  "distinct (map (key_of s) ps) \<Longrightarrow> node_of s ps k = Some p \<longleftrightarrow> p \<in> set ps \<and> key_of s p = k"
proof -
  assume d: "distinct (map (key_of s) ps)"
  then have "distinct (map fst (map (\<lambda>p. (key_of s p, p)) ps))" by (simp add: comp_def)
  then show ?thesis by (auto simp: node_of_def map_of_eq_Some_iff)
qed

lemma node_of_None: "node_of s ps k = None \<longleftrightarrow> k \<notin> key_of s ` set ps"
  by (auto simp: node_of_def map_of_eq_None_iff image_iff)

lemma node_of_remove:
  assumes d: "distinct (map (key_of s) ps)" and x: "x \<in> set ps"
  shows "(node_of s ps)(key_of s x := None) = node_of s (remove1 x ps)"
proof
  fix k
  have inj: "inj_on (key_of s) (set ps)" and dp: "distinct ps" using d by (simp_all add: distinct_map)
  have d': "distinct (map (key_of s) (remove1 x ps))"
    using inj dp by (auto simp: distinct_map intro: inj_on_subset)
  show "((node_of s ps)(key_of s x := None)) k = node_of s (remove1 x ps) k"
  proof (cases "node_of s (remove1 x ps) k")
    case None
    then have "k \<notin> key_of s ` (set ps - {x})" using dp by (simp add: node_of_None)
    then have "k \<noteq> key_of s x \<Longrightarrow> k \<notin> key_of s ` set ps" by auto
    then show ?thesis using None by (cases "k = key_of s x") (simp_all add: node_of_None [symmetric])
  next
    case (Some p)
    then have "p \<in> set ps" "p \<noteq> x" "key_of s p = k" using d' dp by (auto simp: node_of_Some)
    then show ?thesis using Some inj x node_of_Some [OF d] by (auto dest: inj_onD)
  qed
qed

lemma remove1_key:
  assumes "distinct (map (key_of s) ps)" and "x \<in> set ps"
  shows "remove1 x ps = filter (\<lambda>p. key_of s p \<noteq> key_of s x) ps"
proof -
  have "distinct ps" "inj_on (key_of s) (set ps)" using assms(1) by (simp_all add: distinct_map)
  then show ?thesis
    using assms(2) by (auto simp: distinct_remove1_removeAll removeAll_filter_not_eq dest: inj_onD intro!: filter_cong)
qed

section \<open>Unlinking and linking with the map\<close>

text \<open>A node leaves: its key is removed from the map and the node from the list.\<close>

lemma remove_node:
  assumes rep: "lru_rep_at s ps" and x: "x \<in> set ps"
  obtains m h where "remove_entry_lr (lru_map s) (key_of s x) = Inr m"
    "\<And>s'. lru_nodes s' = lru_nodes s \<Longrightarrow> deleteNode s' x = Inr (s'\<lparr>lru_nodes := h\<rparr>)"
    "same_content s (s\<lparr>lru_map := m, lru_map_size := lru_map_size s - 1, lru_nodes := h\<rparr>)"
    "lru_rep_at (s\<lparr>lru_map := m, lru_map_size := lru_map_size s - 1, lru_nodes := h\<rparr>) (remove1 x ps)"
proof -
  have k: "lru_key (key_of s x)" using rep x by (auto simp: lru_rep_at_def readable_def key_of_def)
  have l: "lru_list s ps" and lm: "lmap (lru_map s) (node_of s ps)" and d: "distinct (map (key_of s) ps)"
    using rep by (simp_all add: lru_rep_at_def)
  from remove_entry_lr_law [OF lm k] obtain m where
    m: "remove_entry_lr (lru_map s) (key_of s x) = Inr m" "lmap m (node_of s (remove1 x ps))"
    using node_of_remove [OF d x] by metis
  from deleteNode_list [OF l x] obtain h where
    h: "\<And>s'. lru_nodes s' = lru_nodes s \<Longrightarrow> deleteNode s' x = Inr (s'\<lparr>lru_nodes := h\<rparr>)"
    "lru_list (s\<lparr>lru_nodes := h\<rparr>) (remove1 x ps)" "same_data (lru_nodes s) h" by blast
  let ?s = "s\<lparr>lru_map := m, lru_map_size := lru_map_size s - 1, lru_nodes := h\<rparr>"
  have same: "same_content s ?s" using h(3) by (simp add: same_content_def)
  have "\<forall>p\<in>set (remove1 x ps). readable s p"
    using rep notin_set_remove1 by (fastforce simp: lru_rep_at_def)
  note keep = same_content_list [OF same this]
  have "distinct (map (key_of s) (remove1 x ps))"
    using d by (auto simp: distinct_map intro: inj_on_subset dest: notin_set_remove1)
  then have "distinct (map (key_of ?s) (remove1 x ps))" by (simp only: keep(1))
  moreover have "lru_map_size s - 1 = int (length (remove1 x ps))"
  proof -
    have "1 \<le> length ps" using x by (cases ps) auto
    then show ?thesis using rep x by (simp add: lru_rep_at_def length_remove1 of_nat_diff)
  qed
  moreover have "lmap m (node_of ?s (remove1 x ps))" using m(2) by (simp only: keep(3))
  moreover have "lru_list ?s (remove1 x ps)" using h(2) by (simp add: lru_list_def)
  ultimately have "lru_rep_at ?s (remove1 x ps)"
    using keep(4) by (simp add: lru_rep_at_def)
  with m(1) h(1) same that show thesis by blast
qed

lemma delete_content:
  assumes "distinct (map (key_of s) ps)" and "x \<in> set ps"
  shows "map (node_entry s) (remove1 x ps) = AList.delete (key_of s x) (map (node_entry s) ps)"
  unfolding remove1_key [OF assms] AList.delete_eq filter_map
  by (simp add: comp_def node_entry_def case_prod_unfold eq_commute)

lemma absent_content: "k \<notin> key_of s ` set ps \<Longrightarrow> AList.delete k (map (node_entry s) ps) = map (node_entry s) ps"
  by (induction ps) (auto simp: node_entry_def)

lemma map_of_entries:
  assumes "distinct (map (key_of s) ps)"
  shows "map_of (map (node_entry s) ps) k = map_option (\<lambda>p. snd (node_entry s p)) (node_of s ps k)"
  by (induction ps) (auto simp: node_of_def node_entry_def)

text \<open>A node that is on no list enters at the front.\<close>

lemma insert_node:
  assumes rep: "lru_rep_at s ps" and x: "x \<notin> set ps" "x \<noteq> lru_head s" "x \<noteq> lru_tail s" "x \<noteq> 0"
    and r: "readable s x" and new: "key_of s x \<notin> key_of s ` set ps"
  obtains h m nh where "addNode s x = Inr (s\<lparr>lru_nodes := h\<rparr>)" "h (lru_head s) = Some nh" "n_next nh = x"
    "set_value_lr (lru_map s) (key_of s x) x = Inr m"
    "same_content s (s\<lparr>lru_nodes := h, lru_map := m, lru_map_size := lru_map_size s + 1\<rparr>)"
    "lru_rep_at (s\<lparr>lru_nodes := h, lru_map := m, lru_map_size := lru_map_size s + 1\<rparr>) (x # ps)"
proof -
  from r obtain nx where nx: "lru_nodes s x = Some nx" and k: "lru_key (key_of s x)"
    by (auto simp: readable_def key_of_def)
  have l: "lru_list s ps" and m0: "lmap (lru_map s) (node_of s ps)" using rep by (simp_all add: lru_rep_at_def)
  obtain h nh where h: "addNode s x = Inr (s\<lparr>lru_nodes := h\<rparr>)" "lru_list (s\<lparr>lru_nodes := h\<rparr>) (x # ps)"
    "same_data (lru_nodes s) h" "h (lru_head s) = Some nh" "n_next nh = x"
    by (rule addNode_list [OF l x nx])
  obtain m where m: "set_value_lr (lru_map s) (key_of s x) x = Inr m" "lmap m ((node_of s ps)(key_of s x \<mapsto> x))"
    by (rule set_value_lr_law [OF m0 k x(4)])
  let ?s = "s\<lparr>lru_nodes := h, lru_map := m, lru_map_size := lru_map_size s + 1\<rparr>"
  have same: "same_content s ?s" using h(3) by (simp add: same_content_def)
  have "\<forall>p\<in>set (x # ps). readable s p" using rep r by (simp add: lru_rep_at_def)
  note keep = same_content_list [OF same this]
  have "(node_of s ps)(key_of s x \<mapsto> x) = node_of s (x # ps)" by (simp add: node_of_def)
  then have "lmap m (node_of ?s (x # ps))" using m(2) keep(3) by simp
  moreover have "distinct (map (key_of ?s) (x # ps))"
    unfolding keep(1) using new rep by (simp add: lru_rep_at_def)
  moreover have "lru_list ?s (x # ps)" using h(2) by (simp add: lru_list_def)
  ultimately have "lru_rep_at ?s (x # ps)"
    using keep(4) rep unfolding lru_rep_at_def by simp
  with h m same that show thesis by blast
qed

section \<open>Lookup\<close>

lemma get_LRU_law:
  assumes rep: "lru_rep s xs" and k: "lru_strings s kp = Some k" "lru_key k"
  shows "\<exists>s'. get_LRU s kp = Inr (fst (cache_get xs k), s') \<and> lru_rep s' (snd (cache_get xs k)) \<and>
    same_content s s'"
proof -
  from rep obtain ps where ps: "lru_rep_at s ps" "xs = map (node_entry s) ps" by (auto simp: lru_rep_def)
  have d: "distinct (map (key_of s) ps)" and m: "lmap (lru_map s) (node_of s ps)"
    and rd: "\<forall>p\<in>set ps. readable s p" using ps(1) by (simp_all add: lru_rep_at_def)
  show ?thesis
  proof (cases "node_of s ps k")
    case None
    then have "map_of xs k = None" using map_of_entries [OF d, of k] by (simp add: ps(2))
    with None rep k get_value_lr_law [OF m k(2)] show ?thesis
      by (auto simp: get_LRU_def load_string_def cache_get_def same_content_def same_data_refl)
  next
    case (Some x)
    then have x: "x \<in> set ps" "key_of s x = k" using node_of_Some [OF d] by auto
    then obtain nx where nx: "lru_nodes s x = Some nx" using rd by (auto simp: readable_def)
    have ne: "x \<noteq> 0" "x \<noteq> lru_head s" "x \<noteq> lru_tail s" using ps(1) x(1) by (auto simp: lru_rep_at_def lru_list_def)
    have get: "get_value_lr (lru_map s) k = Inr x" using get_value_lr_law [OF m k(2)] Some by simp
    show ?thesis
    proof (rule remove_node [OF ps(1) x(1)], goal_cases)
      case (1 m1 h1)
      let ?s = "s\<lparr>lru_map := m1, lru_map_size := lru_map_size s - 1, lru_nodes := h1\<rparr>"
      let ?ps = "remove1 x ps"
      have dp: "distinct ps" using d by (simp add: distinct_map)
      have keys: "map (key_of ?s) ?ps = map (key_of s) ?ps" "map (node_entry ?s) ?ps = map (node_entry s) ?ps"
        using same_content_list [OF 1(3), of ?ps] rd dp by (simp_all)
      have at_x: "key_of ?s x = k" "readable ?s x" "node_entry ?s x = node_entry s x"
        using same_content_at [OF 1(3), of x] rd x by auto
      have "key_of s x \<notin> key_of s ` set ?ps" using d x dp by (auto simp: distinct_map dest: inj_onD)
      then have new: "key_of ?s x \<notin> key_of ?s ` set ?ps"
        using keys(1) x(2) at_x(1) by (metis list.set_map)
      show ?thesis
      proof (rule insert_node [OF 1(4) _ _ _ ne(1) at_x(2) new], goal_cases)
        case 1
        show ?case using dp by simp
      next
        case 2
        show ?case using ne by simp
      next
        case 3
        show ?case using ne by simp
      next
        case (4 h2 m2 nh)
        let ?t = "?s\<lparr>lru_nodes := h2, lru_map := m2, lru_map_size := lru_map_size ?s + 1\<rparr>"
        have run: "get_LRU s kp = Inr (n_val nx, ?t)"
          using k get ne nx 1(1,2) x(2) 4(1-4) at_x(1)
          by (simp add: get_LRU_def load_string_def load_node_def Let_def)
        have rd': "\<forall>p\<in>set (x # ?ps). readable ?s p"
        proof -
          have "\<forall>p\<in>set ?ps. readable ?s p"
            by (rule same_content_list(4) [OF 1(3)]) (use rd notin_set_remove1 in fastforce)
          with at_x(2) show ?thesis by simp
        qed
        have "map (node_entry ?t) (x # ?ps) = map (node_entry ?s) (x # ?ps)"
          by (rule same_content_list(2) [OF 4(5) rd'])
        also have "\<dots> = (k, n_val nx) # AList.delete k xs"
          using keys(2) at_x(3) delete_content [OF d x(1)] x(2) nx ps(2) by (simp add: node_entry_def)
        finally have "lru_rep ?t ((k, n_val nx) # AList.delete k xs)"
          using 4(6) unfolding lru_rep_def by metis
        moreover have "map_of xs k = Some (n_val nx)"
          using map_of_entries [OF d, of k] Some nx by (simp add: ps(2) node_entry_def)
        moreover have "same_content s ?t" using 1(3) 4(5) by (rule same_content_trans)
        ultimately show ?case using run by (simp add: cache_get_def)
      qed
    qed
  qed
qed

section \<open>Insertion\<close>

lemma put_forget_rep:
  assumes rep: "lru_rep_at s ps" and k: "lru_key k"
  obtains s' ps' where "put_forget s k = Inr s'" "lru_rep_at s' ps'" "same_content s s'"
    "map (node_entry s') ps' = AList.delete k (map (node_entry s) ps)" "k \<notin> key_of s' ` set ps'"
proof (cases "node_of s ps k")
  case None
  have "get_value_lr (lru_map s) k = Inr 0"
    using get_value_lr_law [OF _ k, of "lru_map s" "node_of s ps"] rep None by (simp add: lru_rep_at_def)
  with None rep show thesis
    by (intro that [of s ps])
       (simp_all add: put_forget_def node_of_None absent_content same_content_def same_data_refl)
next
  case (Some x)
  have d: "distinct (map (key_of s) ps)" and m: "lmap (lru_map s) (node_of s ps)"
    using rep by (simp_all add: lru_rep_at_def)
  have x: "x \<in> set ps" "key_of s x = k" using Some node_of_Some [OF d] by auto
  have "x \<noteq> 0" using rep x by (auto simp: lru_rep_at_def lru_list_def)
  show thesis
  proof (rule remove_node [OF rep x(1)], goal_cases)
    case (1 m1 h1)
    let ?s = "s\<lparr>lru_map := m1, lru_map_size := lru_map_size s - 1, lru_nodes := h1\<rparr>"
    have rd: "\<forall>p\<in>set (remove1 x ps). readable s p"
      using rep notin_set_remove1 by (fastforce simp: lru_rep_at_def)
    note keep = same_content_list [OF 1(3) rd]
    have "k \<notin> key_of s ` set (remove1 x ps)"
      using d x by (auto simp: distinct_map dest: inj_onD)
    then have "k \<notin> key_of ?s ` set (remove1 x ps)" using keep(1) by (metis list.set_map)
    moreover have "map (node_entry ?s) (remove1 x ps) = AList.delete k (map (node_entry s) ps)"
      using keep(2) delete_content [OF d x(1)] x(2) by simp
    moreover have "put_forget s k = Inr ?s"
      using get_value_lr_law [OF m k] Some \<open>x \<noteq> 0\<close> 1(1,2) x(2) by (simp add: put_forget_def)
    ultimately show ?case using 1(3,4) that by blast
  qed
qed

lemma lru_tail_prev:
  assumes "lru_list s ps" and "ps \<noteq> []"
  obtains nt where "lru_nodes s (lru_tail s) = Some nt" "n_prev nt = last ps"
proof -
  have "lru_head s # ps @ [lru_tail s] = (lru_head s # butlast ps) @ last ps # [lru_tail s]"
    using assms(2) by simp
  with assms(1) have "links (lru_nodes s) (last ps # [lru_tail s])"
    unfolding lru_list_def by (metis links_append)
  with that show thesis by auto
qed

lemma remove1_last: "distinct ps \<Longrightarrow> ps \<noteq> [] \<Longrightarrow> remove1 (last ps) ps = butlast ps"
  by (induction ps) auto

lemma put_evict_rep:
  assumes rep: "lru_rep_at s ps" and c: "0 < lru_capacity s"
  obtains s' ps' where "put_evict s = Inr s'" "lru_rep_at s' ps'" "same_content s s'"
    "map (node_entry s') ps' =
      (if int (length ps) = lru_capacity s then butlast (map (node_entry s) ps) else map (node_entry s) ps)"
    "key_of s' ` set ps' \<subseteq> key_of s ` set ps"
proof (cases "int (length ps) = lru_capacity s")
  case False
  with rep show thesis
    by (intro that [of s ps]) (auto simp: put_evict_def lru_rep_at_def same_content_def same_data_refl)
next
  case True
  then have ne: "ps \<noteq> []" using c by auto
  have l: "lru_list s ps" and d: "distinct (map (key_of s) ps)" and rd: "\<forall>p\<in>set ps. readable s p"
    and sz: "lru_map_size s = int (length ps)"
    using rep by (simp_all add: lru_rep_at_def)
  obtain nt where nt: "lru_nodes s (lru_tail s) = Some nt" "n_prev nt = last ps" by (rule lru_tail_prev [OF l ne])
  have x: "last ps \<in> set ps" using ne by simp
  then obtain nx k where nx: "lru_nodes s (last ps) = Some nx" "lru_strings s (n_key nx) = Some k"
    using rd by (auto simp: readable_def)
  have k: "key_of s (last ps) = k" using nx by (simp add: key_of_def)
  show thesis
  proof (rule remove_node [OF rep x], goal_cases)
    case (1 m1 h1)
    let ?s = "s\<lparr>lru_map := m1, lru_map_size := lru_map_size s - 1, lru_nodes := h1\<rparr>"
    have rem: "remove1 (last ps) ps = butlast ps" using d ne by (intro remove1_last) (simp_all add: distinct_map)
    have "\<forall>p\<in>set (butlast ps). readable s p" using rd by (meson in_set_butlastD)
    note keep = same_content_list [OF 1(3) this]
    have "put_evict s = Inr ?s"
      using True sz nt nx 1(1,2) k
      by (simp add: put_evict_def load_node_def load_string_def)
    moreover have "map (node_entry ?s) (butlast ps) = butlast (map (node_entry s) ps)"
      using keep(2) by (simp only: map_butlast)
    moreover have "key_of ?s ` set (butlast ps) \<subseteq> key_of s ` set ps"
      using keep(1) by (metis image_mono in_set_butlastD list.set_map subsetI)
    ultimately show ?case using 1(3,4) True rem that by metis
  qed
qed

text \<open>The new node is written to memory nobody uses.\<close>

lemma store_new_node:
  fixes v :: int and junk :: addr
  assumes rep: "lru_rep_at s ps" and a: "lru_nodes s a = None" and l0: "lru_nodes s (lru_head s) \<noteq> None"
    and l1: "lru_nodes s (lru_tail s) \<noteq> None"
    and kp: "lru_strings s kp = Some k" "lru_key k"
  defines "s' \<equiv> store_node s a \<lparr>n_key = kp, n_val = v, n_next = junk, n_prev = junk\<rparr>"
  shows "lru_rep_at s' ps" and "a \<notin> set ps" and "a \<noteq> lru_head s'" and "a \<noteq> lru_tail s'"
    and "key_of s' a = k" and "readable s' a" and "node_entry s' a = (k, v)"
    and "map (node_entry s') ps = map (node_entry s) ps" and "key_of s' ` set ps = key_of s ` set ps"
proof -
  have rd: "\<forall>p\<in>set ps. readable s p" using rep by (simp add: lru_rep_at_def)
  then show new: "a \<notin> set ps" using a by (auto simp: readable_def)
  show ends: "a \<noteq> lru_head s'" "a \<noteq> lru_tail s'" using a l0 l1 by (auto simp: s'_def store_node_def)
  show "key_of s' a = k" "readable s' a" "node_entry s' a = (k, v)"
    using kp by (simp_all add: s'_def store_node_def key_of_def readable_def node_entry_def)
  have other: "key_of s' p = key_of s p" "readable s' p \<longleftrightarrow> readable s p" "node_entry s' p = node_entry s p"
    if "p \<in> set ps" for p
    using that new by (auto simp: s'_def store_node_def key_of_def readable_def node_entry_def)
  then show "map (node_entry s') ps = map (node_entry s) ps" "key_of s' ` set ps = key_of s ` set ps"
    by simp_all
  have keys: "map (key_of s') ps = map (key_of s) ps" "map (\<lambda>p. (key_of s' p, p)) ps = map (\<lambda>p. (key_of s p, p)) ps"
    using other by simp_all
  have "node_of s' ps = node_of s ps" unfolding node_of_def keys ..
  moreover have "lru_list s' ps"
    using rep new ends by (simp add: lru_rep_at_def lru_list_def s'_def store_node_def links_frame)
  moreover have "distinct (map (key_of s') ps)" unfolding keys using rep by (simp add: lru_rep_at_def)
  ultimately show "lru_rep_at s' ps"
    using rep other by (simp add: lru_rep_at_def s'_def store_node_def)
qed

lemma same_content_None: "same_content s s' \<Longrightarrow> lru_nodes s' p = None \<longleftrightarrow> lru_nodes s p = None"
  unfolding same_content_def same_data_def by (metis map_option_is_None)

lemma lru_list_ends: "lru_list s ps \<Longrightarrow> lru_nodes s (lru_head s) \<noteq> None \<and> lru_nodes s (lru_tail s) \<noteq> None"
proof -
  assume l: "lru_list s ps"
  obtain q bs where q: "ps @ [lru_tail s] = q # bs" by (cases "ps @ [lru_tail s]") auto
  have "lru_nodes s (lru_head s) \<noteq> None" using l by (auto simp: lru_list_def q)
  moreover have "lru_nodes s (lru_tail s) \<noteq> None"
  proof (cases "ps = []")
    case True
    then show ?thesis using l by (auto simp: lru_list_def)
  next
    case False
    then show ?thesis by (rule lru_tail_prev [OF l]) simp
  qed
  ultimately show ?thesis by simp
qed

lemma put_LRU_at:
  assumes rep: "lru_rep s xs" and c: "0 < lru_capacity s"
    and k: "lru_strings s kp = Some k" "lru_key k" and a: "lru_nodes s a = None" "a \<noteq> 0"
  obtains s' ps where "put_LRU s kp v a junk = Inr s'" "lru_rep_at s' (a # ps)"
    "map (node_entry s') (a # ps) = cache_put (lru_capacity s) xs k v"
    "map_option n_key (lru_nodes s' a) = Some kp"
    "lru_capacity s' = lru_capacity s" "lru_strings s' = lru_strings s"
    "\<And>p. lru_nodes s p = None \<Longrightarrow> p \<noteq> a \<Longrightarrow> lru_nodes s' p = None"
proof -
  from rep obtain ps where ps: "lru_rep_at s ps" "xs = map (node_entry s) ps" by (auto simp: lru_rep_def)
  from put_forget_rep [OF ps(1) k(2)] obtain s1 ps1 where
    s1: "put_forget s k = Inr s1" "lru_rep_at s1 ps1" "same_content s s1"
    "map (node_entry s1) ps1 = AList.delete k xs" "k \<notin> key_of s1 ` set ps1"
    unfolding ps(2) by blast
  have c1: "lru_capacity s1 = lru_capacity s" using s1(3) by (simp add: same_content_def)
  from put_evict_rep [OF s1(2)] c c1 obtain s2 ps2 where
    s2: "put_evict s1 = Inr s2" "lru_rep_at s2 ps2" "same_content s1 s2"
    "map (node_entry s2) ps2 =
      (if int (length ps1) = lru_capacity s then butlast (AList.delete k xs) else AList.delete k xs)"
    "key_of s2 ` set ps2 \<subseteq> key_of s1 ` set ps1" unfolding s1(4) [symmetric] by metis
  have same: "same_content s s2" using s1(3) s2(3) by (rule same_content_trans)
  then have str: "lru_strings s2 = lru_strings s" "lru_capacity s2 = lru_capacity s"
    by (simp_all add: same_content_def)
  have a2: "lru_nodes s2 a = None" using a(1) same_content_None [OF same] by simp
  have ends: "lru_nodes s2 (lru_head s2) \<noteq> None" "lru_nodes s2 (lru_tail s2) \<noteq> None"
    using s2(2) lru_list_ends by (auto simp: lru_rep_at_def)
  have k2: "lru_strings s2 kp = Some k" using k(1) str by simp
  let ?s = "store_node s2 a \<lparr>n_key = kp, n_val = v, n_next = junk, n_prev = junk\<rparr>"
  note new = store_new_node(1) [OF s2(2) a2 ends k2 k(2), of v junk]
    store_new_node(2) [OF s2(2) a2 ends k2 k(2)]
    store_new_node(3-9) [OF s2(2) a2 ends k2 k(2), of v junk]
  have absent: "key_of ?s a \<notin> key_of ?s ` set ps2" using new(5,9) s1(5) s2(5) by auto
  show thesis
  proof (rule insert_node [OF new(1) new(2-4) a(2) new(6) absent], goal_cases)
    case (1 h m nh)
    let ?t = "?s\<lparr>lru_nodes := h, lru_map := m, lru_map_size := lru_map_size ?s + 1\<rparr>"
    have run: "put_LRU s kp v a junk = Inr ?t"
      using k(1) s1(1) s2(1) 1(1-4) new(5)
      by (simp add: put_LRU_def load_string_def load_node_def store_node_def Let_def)
    have rd: "\<forall>p\<in>set (a # ps2). readable ?s p" using new(1,6) by (simp add: lru_rep_at_def)
    have len: "length ps1 = length (AList.delete k xs)" using s1(4) by (metis length_map)
    have "map (node_entry ?t) (a # ps2) = map (node_entry ?s) (a # ps2)"
      by (rule same_content_list(2) [OF 1(5) rd])
    also have "\<dots> = cache_put (lru_capacity s) xs k v"
      using new(7,8) s2(4) by (simp add: cache_put_def Let_def len)
    finally have ents: "map (node_entry ?t) (a # ps2) = cache_put (lru_capacity s) xs k v" .
    have "map_option n_key (lru_nodes ?t a) = map_option n_key (lru_nodes ?s a)"
      using 1(5) by (simp add: same_content_def same_data_def)
    then have key: "map_option n_key (lru_nodes ?t a) = Some kp" by (simp add: store_node_def)
    have "lru_capacity ?t = lru_capacity s" "lru_strings ?t = lru_strings s"
      using str by (simp_all add: store_node_def)
    moreover have "lru_nodes ?t p = None" if "lru_nodes s p = None" "p \<noteq> a" for p
      using that same_content_None [OF same, of p] same_content_None [OF 1(5), of p]
      by (simp add: store_node_def)
    ultimately show ?case using run 1(6) ents key that by blast
  qed
qed

lemma put_LRU_law:
  assumes "lru_rep s xs" and "0 < lru_capacity s"
    and "lru_strings s kp = Some k" "lru_key k" and "lru_nodes s a = None" "a \<noteq> 0"
  shows "\<exists>s'. put_LRU s kp v a junk = Inr s' \<and> lru_rep s' (cache_put (lru_capacity s) xs k v) \<and>
    lru_capacity s' = lru_capacity s \<and> lru_strings s' = lru_strings s"
  using put_LRU_at [OF assms, of v junk] unfolding lru_rep_def by metis

lemma createLRU_rep:
  assumes "h \<noteq> t"
  shows "lru_rep (createLRU strings lit junk h t hashmap_create c) []"
proof -
  have "node_of s [] = (\<lambda>_. None)" for s by (simp add: node_of_def)
  with assms lmap_create have "lru_rep_at (createLRU strings lit junk h t hashmap_create c) []"
    by (simp add: lru_rep_at_def createLRU_def lru_list_def)
  then show ?thesis unfolding lru_rep_def by force
qed

section \<open>Properties\<close>

text \<open>
  Claim C11. \<^verbatim>\<open>put_LRU\<close> on a cache in which every key pointer still points to its key: it returns
  (no pointer it follows is wild), moves the key to the front with the new value, and drops the
  least recently used key exactly when the capacity is reached without the key. The node is new
  memory, as \<^verbatim>\<open>malloc\<close> gives it.
\<close>

theorem put_LRU_refines:
  assumes "lru_rep s xs" and "0 < lru_capacity s"
    and "lru_strings s kp = Some k" and "k \<noteq> []" and "length k \<le> 4090"
    and "lru_nodes s a = None" and "a \<noteq> 0"
  shows "\<exists>s'. put_LRU s kp v a junk = Inr s' \<and> lru_rep s' (cache_put (lru_capacity s) xs k v)"
  using put_LRU_law [OF assms(1-3) lru_key_fits [OF assms(4,5)] assms(6,7)] by blast

text \<open>A cache of capacity 3, as the naming server creates it, with one C string.\<close>

definition cache_example :: lru where
  "cache_example = createLRU [30 \<mapsto> ''a/b''] 20 0 1 2 hashmap_create 3"

lemma cache_example: "lru_rep cache_example []" "lru_capacity cache_example = 3"
  "lru_strings cache_example 30 = Some ''a/b''" "lru_nodes cache_example 5 = None"
  unfolding cache_example_def by (rule createLRU_rep; simp) (simp_all add: createLRU_def)

theorem put_LRU_refines_witness:
  "\<exists>s. put_LRU cache_example 30 7 5 0 = Inr s \<and> lru_rep s [(''a/b'', 7)]"
  using put_LRU_refines [OF cache_example(1) _ cache_example(3) _ _ cache_example(4), of 7 0]
  by (auto simp: cache_put_def cache_example)

text \<open>
  Claim C21. \<^verbatim>\<open>get_LRU\<close> returns the value of the key and moves the key to the front of the list; for
  an unknown key it returns \<open>-1\<close> and changes nothing.
\<close>

theorem get_LRU_refines:
  assumes "lru_rep s xs" and "lru_strings s kp = Some k" and "k \<noteq> []" and "length k \<le> 4090"
  shows "\<exists>s'. get_LRU s kp = Inr (fst (cache_get xs k), s') \<and> lru_rep s' (snd (cache_get xs k))"
  using get_LRU_law [OF assms(1,2) lru_key_fits [OF assms(3,4)]] by blast

theorem get_LRU_refines_witness:
  "\<exists>s s'. lru_rep s [(''a/b'', 7)] \<and> get_LRU s 30 = Inr (7, s')"
proof -
  have "lru_key ''a/b''" by (rule lru_key_fits) simp_all
  from put_LRU_law [OF cache_example(1) _ cache_example(3) this cache_example(4), of 7 0] obtain s where
    s: "lru_rep s [(''a/b'', 7)]" "lru_strings s 30 = Some ''a/b''"
    by (auto simp: cache_put_def cache_example)
  from get_LRU_refines [OF s] obtain s' where "get_LRU s 30 = Inr (7, s')" by (auto simp: cache_get_def)
  with s(1) show ?thesis by (intro exI [of _ s] exI [of _ s']) simp
qed

text \<open>
  Claim C22. The cache never holds more keys than its capacity: insertion keeps the bound, and the
  counter is the number of keys.
\<close>

theorem put_LRU_bounded:
  assumes "lru_rep s xs" and "0 < lru_capacity s" and "int (length xs) \<le> lru_capacity s"
    and "lru_strings s kp = Some k" and "k \<noteq> []" and "length k \<le> 4090"
    and "lru_nodes s a = None" and "a \<noteq> 0"
  shows "\<exists>s'. put_LRU s kp v a junk = Inr s' \<and> (\<exists>ys. lru_rep s' ys \<and> lru_map_size s' = int (length ys)) \<and>
    lru_map_size s' \<le> lru_capacity s'"
proof -
  from put_LRU_law [OF assms(1,2,4) lru_key_fits [OF assms(5,6)] assms(7,8), of v junk] obtain s' where
    s': "put_LRU s kp v a junk = Inr s'" "lru_rep s' (cache_put (lru_capacity s) xs k v)"
    "lru_capacity s' = lru_capacity s" by blast
  have "length (AList.delete k xs) \<le> length xs" by (rule length_delete_le)
  then have "int (length (cache_put (lru_capacity s) xs k v)) \<le> lru_capacity s"
    using assms(2,3) by (auto simp: cache_put_def Let_def)
  moreover have "lru_map_size s' = int (length (cache_put (lru_capacity s) xs k v))"
    using s'(2) by (auto simp: lru_rep_def lru_rep_at_def)
  ultimately show ?thesis using s' by auto
qed

theorem put_LRU_bounded_witness:
  "\<exists>s. put_LRU cache_example 30 7 5 0 = Inr s \<and> lru_map_size s \<le> lru_capacity s"
  using put_LRU_bounded [OF cache_example(1) _ _ cache_example(3) _ _ cache_example(4), of 7 0]
  by (auto simp: cache_example(2))



end
