(* ===== verification/Naming_Server.thy ===== *)
theory Naming_Server
  imports Command Lru_Correct Registration File_Ops
begin

text \<open>
  namingserver.c: the naming server. It keeps the map from paths to storage servers, registers
  storage servers, and for every client runs a thread that reads commands and answers them, for
  CREATE, DELETE and COPY after having them carried out by the storage servers.
\<close>

section \<open>State\<close>

text \<open>
  The globals. \<open>ns_clients\<close> holds the argument rows of every client thread that is running.
\<close>

record naming = world +
  ns_count :: nat
  ns_infos :: "storage_info list"
  ns_used_ports :: "int list"
  ns_paths :: hashmap
  ns_lru :: lru
  ns_clients :: "nat \<Rightarrow> string list option"

section \<open>Talking to storage servers\<close>

primrec ns_send_args :: "nat \<Rightarrow> string list \<Rightarrow> ('z world_scheme, unit) io" where
  "ns_send_args s [] = io_return ()"
| "ns_send_args s (a # as) =
     io_bind (send_or_exit s (buffer PATH_MAX a)) (\<lambda>_.
     io_bind (recv_or_exit s MAX_BUFFER_SIZE) (\<lambda>bs.
     io_bind (received_string MAX_BUFFER_SIZE bs) (\<lambda>ack.
     if strcaseeq ack ''ACK'' then ns_send_args s as else io_exit)))"

definition ns_connectToStorageServer ::
  "string \<Rightarrow> int \<Rightarrow> string list \<Rightarrow> nat \<Rightarrow> ('z world_scheme, nat) io" where
  "ns_connectToStorageServer storage_server_ip storage_server_port args no_args =
     io_bind (open_socket storage_server_ip storage_server_port) (\<lambda>s.
     io_bind (send_or_exit s (int_bytes (int no_args))) (\<lambda>_.
     io_bind (ns_send_args s (take no_args args)) (\<lambda>_.
     io_bind (send_or_exit s (buffer MAX_BUFFER_SIZE ''DONE'')) (\<lambda>_.
     io_return s))))"

definition getResultsFromSS :: "string \<Rightarrow> int \<Rightarrow> string list \<Rightarrow> nat \<Rightarrow> ('z world_scheme, int) io" where
  "getResultsFromSS ip port args no_args =
     io_bind (ns_connectToStorageServer ip port args no_args) (\<lambda>s.
     io_bind (recv_or_exit s MAX_BUFFER_SIZE) (\<lambda>bs.
     io_bind (received_string MAX_BUFFER_SIZE bs) (\<lambda>answer.
     io_bind (close_socket s) (\<lambda>_.
     io_return (if strcaseeq answer ''ACK'' then 1 else 0)))))"

text \<open>
  The forwarding loop of \<^verbatim>\<open>facilitateCopy\<close>. It ends with STOP, with the end of the stream or with
  an error. Every packet is passed on as the whole zeroed buffer.
\<close>

function forward_loop :: "nat \<Rightarrow> nat \<Rightarrow> 'z world_scheme \<Rightarrow> ('z world_scheme, unit) outcome" where
  "forward_loop s1 s2 w =
     io_bind (recv s1 (CHUNK_SIZE + 1)) (\<lambda>r w.
     if r = None \<or> r = Some [] then io_return () w
     else io_bind (received_string (CHUNK_SIZE + 1) (the r)) (\<lambda>text w.
          if strcaseeq text ''STOP'' then io_return () w
          else io_bind (send_or_exit s2 (buffer (CHUNK_SIZE + 1) (the r))) (\<lambda>_ w.
               forward_loop s1 s2 w) w) w) w"
  by pat_completeness auto

termination
  by (relation "measure (\<lambda>(s1, s2, w). in_size (w_in w s1))")
     (auto dest!: recv_in_size send_or_exit_in received_string_same)

declare forward_loop.simps [simp del]

definition facilitateCopy :: "nat \<Rightarrow> nat \<Rightarrow> ('z world_scheme, int) io" where
  "facilitateCopy s1 s2 =
     io_bind (recv_or_exit s1 (CHUNK_SIZE + 1)) (\<lambda>name.
     io_bind (send_or_exit s2 (buffer (CHUNK_SIZE + 1) name)) (\<lambda>_.
     io_bind (forward_loop s1 s2) (\<lambda>_.
     io_bind (send_or_exit s2 (''STOP'' @ [NUL])) (\<lambda>_.
     io_bind (recv_or_exit s2 4) (\<lambda>bs.
     let zip = int_received 0 bs
     in io_bind (recv_or_exit s1 MAX_BUFFER_SIZE) (\<lambda>bs1.
        io_bind (received_string MAX_BUFFER_SIZE bs1) (\<lambda>final_ack1.
        io_bind (recv_or_exit s2 MAX_BUFFER_SIZE) (\<lambda>bs2.
        io_bind (received_string MAX_BUFFER_SIZE bs2) (\<lambda>final_ack2.
        io_bind (close_socket s1) (\<lambda>_.
        io_bind (close_socket s2) (\<lambda>_.
        io_return (if strcaseeq final_ack1 ''ACK'' \<and> strcaseeq final_ack2 ''ACK''
                   then (if zip = 0 then 1 else 2) else 0))))))))))))"

section \<open>The commands of a client\<close>

text \<open>Reading and changing the map of accessible paths.\<close>

definition path_server :: "string \<Rightarrow> ('z naming_scheme, int) io" where
  "path_server path = io_bind (io_get ns_paths) (\<lambda>m. io_lift (get_value m path))"

definition add_path :: "string \<Rightarrow> int \<Rightarrow> ('z naming_scheme, unit) io" where
  "add_path path n =
     io_bind (io_get ns_paths) (\<lambda>m.
     io_bind (io_lift (set_value m path n)) (\<lambda>m'.
     io_update (ns_paths_update (\<lambda>_. m'))))"

definition remove_path :: "string \<Rightarrow> ('z naming_scheme, unit) io" where
  "remove_path path =
     io_bind (io_get ns_paths) (\<lambda>m.
     io_bind (io_lift (remove_entry m path)) (\<lambda>m'.
     io_update (ns_paths_update (\<lambda>_. m'))))"

definition add_copied_paths :: "int \<Rightarrow> string \<Rightarrow> string \<Rightarrow> ('z naming_scheme, unit) io" where
  "add_copied_paths n dir folder =
     io_bind (io_get ns_paths) (\<lambda>m.
     io_bind (io_lift (add_paths_to_list m n dir folder)) (\<lambda>m'.
     io_update (ns_paths_update (\<lambda>_. m'))))"

definition show_paths :: "('z naming_scheme, unit) io" where
  "show_paths = io_bind (io_get ns_paths) (\<lambda>m. io_bind (io_lift (print_map m)) (\<lambda>_. io_return ()))"

text \<open>The array \<^verbatim>\<open>StorageServersInfo\<close> has \<^verbatim>\<open>MAX_SS\<close> elements.\<close>

definition server_info :: "int \<Rightarrow> ('z naming_scheme, storage_info) io" where
  "server_info n =
     (if n < 0 \<or> int MAX_SS \<le> n then io_fault OutOfBounds
      else io_get (\<lambda>w. ns_infos w ! nat n))"

definition reply :: "nat \<Rightarrow> string \<Rightarrow> ('z naming_scheme, unit) io" where
  "reply c text = send_or_exit c (buffer MAX_BUFFER_SIZE text)"

definition not_present :: "string \<Rightarrow> string \<Rightarrow> string" where
  "not_present cmd usage =
     ''Path isn't present in any of our storage servers. COMMAND: '' @ cmd @ usage"

text \<open>CREATE and DELETE. The rows of an array are never \<^verbatim>\<open>NULL\<close>, so the test for a missing path
  is no test.\<close>

definition create_delete :: "nat \<Rightarrow> string list \<Rightarrow> nat \<Rightarrow> ('z naming_scheme, unit) io" where
  "create_delete c args no_args =
     io_bind (send_or_exit c (int_bytes 1)) (\<lambda>_.
     io_bind (path_server (args ! 1)) (\<lambda>storage_server_num.
     if storage_server_num \<noteq> - 1
     then io_bind (server_info storage_server_num) (\<lambda>si.
          io_bind (getResultsFromSS (si_ip si) (si_naming_port si) args no_args) (\<lambda>result.
          if result = 1
          then io_bind
                 (if strcaseeq (args ! 0) ''CREATE''
                  then let new_path = take (2 * PATH_MAX - 1) (args ! 1 @ ''/'' @ args ! 2)
                       in io_bind (add_path new_path storage_server_num) (\<lambda>_. show_paths)
                  else if strcaseeq (args ! 0) ''DELETE''
                  then io_bind (remove_path (args ! 1)) (\<lambda>_. show_paths)
                  else io_return ()) (\<lambda>_.
               reply c ''ACK'')
          else reply c ''FAIL''))
     else reply c (not_present (args ! 0) '' <PATH> <FILENAME>'')))"

text \<open>READ, WRITE and DETAILS: the client is sent to the storage server.\<close>

definition send_address :: "nat \<Rightarrow> int \<Rightarrow> string list \<Rightarrow> ('z naming_scheme, unit) io" where
  "send_address c command_type args =
     io_bind (send_or_exit c (int_bytes command_type)) (\<lambda>_.
     io_bind (path_server (args ! 1)) (\<lambda>storage_server_num.
     if storage_server_num \<noteq> - 1
     then io_bind (server_info storage_server_num) (\<lambda>si.
          io_bind (reply c ''FOUND'') (\<lambda>_.
          io_bind (send_or_exit c (buffer 16 (si_ip si))) (\<lambda>_.
          send_or_exit c (int_bytes (si_client_port si)))))
     else reply c (not_present (args ! 0) '' <PATH> <FILENAME>'')))"

text \<open>
  COPY: one connection that sends, one that receives, and the map is extended. \<^verbatim>\<open>basename\<close> may cut
  slashes off the row it is given, so the rows are returned.
\<close>

definition copy :: "nat \<Rightarrow> string list \<Rightarrow> ('z naming_scheme, string list) io" where
  "copy c args =
     io_bind (send_or_exit c (int_bytes 1)) (\<lambda>_.
     io_bind (path_server (args ! 1)) (\<lambda>storage_server_num1.
     io_bind (path_server (args ! 2)) (\<lambda>storage_server_num2.
     if storage_server_num1 \<noteq> - 1 \<and> storage_server_num2 \<noteq> - 1
     then io_bind (server_info storage_server_num1) (\<lambda>si1.
          io_bind (ns_connectToStorageServer (si_ip si1) (si_naming_port si1) [''SEND'', args ! 1] 2) (\<lambda>s1.
          io_bind (server_info storage_server_num2) (\<lambda>si2.
          io_bind (ns_connectToStorageServer (si_ip si2) (si_naming_port si2) [''RECEIVE'', args ! 2] 2) (\<lambda>s2.
          io_bind (facilitateCopy s1 s2) (\<lambda>result.
          if result = 1
          then let (base, row) = basename (args ! 1);
                   new_path = take (2 * PATH_MAX - 1) (args ! 2 @ ''/'' @ base)
               in io_bind (path_server (args ! 2)) (\<lambda>n.
                  io_bind (add_path new_path n) (\<lambda>_.
                  io_bind show_paths (\<lambda>_.
                  io_bind (reply c ''ACK'') (\<lambda>_.
                  io_return (args[1 := row])))))
          else if result = 2
          then io_bind (path_server (args ! 2)) (\<lambda>n.
               io_bind (add_copied_paths n (args ! 2) (args ! 1)) (\<lambda>_.
               io_bind show_paths (\<lambda>_.
               io_bind (reply c ''ACK'') (\<lambda>_.
               io_return args))))
          else io_bind (reply c ''FAIL'') (\<lambda>_. io_return args))))))
     else io_bind (reply c (not_present (args ! 0) '' <PATH> <NEW PATH>'')) (\<lambda>_. io_return args))))"

text \<open>
  DETAILS is answered like READ and WRITE, in a branch of its own. Everything else is no command,
  except for \<^verbatim>\<open>exit\<close>, which is compared with a text that ends in the colour \<^verbatim>\<open>white\<close>.
\<close>

definition details :: "nat \<Rightarrow> string list \<Rightarrow> ('z naming_scheme, unit) io" where
  "details c args = send_address c 4 args"

definition other_command :: "nat \<Rightarrow> string list \<Rightarrow> string \<Rightarrow> ('z naming_scheme, string list \<times> bool) io" where
  "other_command c args command =
     (if strcaseeq command (''exit'' @ [CHR 0x0A] @ white)
      then io_bind (send_or_exit c (int_bytes 5)) (\<lambda>_. io_return (args, True))
      else io_bind (send_or_exit c (int_bytes 6)) (\<lambda>_. io_return (args, False)))"

text \<open>
  One turn of the loop of \<^verbatim>\<open>client_handler\<close> on the socket \<open>c\<close> with the rows left by earlier turns: the
  rows afterwards, and whether the loop is left.
\<close>

definition client_handler_turn :: "nat \<Rightarrow> string list \<Rightarrow> ('z naming_scheme, string list \<times> bool) io" where
  "client_handler_turn c args =
     io_bind (recv_or_exit c MAX_BUFFER_SIZE) (\<lambda>bs.
     io_bind (received_string MAX_BUFFER_SIZE bs) (\<lambda>command.
     io_bind (io_lift (processCommand command args)) (\<lambda>(args, no_args).
     if strcaseeq (args ! 0) ''CREATE'' \<or> strcaseeq (args ! 0) ''DELETE''
     then io_bind (create_delete c args no_args) (\<lambda>_. io_return (args, False))
     else if strcaseeq (args ! 0) ''READ'' \<or> strcaseeq (args ! 0) ''WRITE''
     then io_bind (send_address c (if strcaseeq (args ! 0) ''READ'' then 2 else 3) args) (\<lambda>_.
          io_return (args, False))
     else if strcaseeq (args ! 0) ''COPY''
     then io_bind (copy c args) (\<lambda>args. io_return (args, False))
     else if strcaseeq (args ! 0) ''DETAILS''
     then io_bind (details c args) (\<lambda>_. io_return (args, False))
     else other_command c args command)))"

lemmas client_handler_turn_defs = client_handler_turn_def details_def other_command_def

section \<open>Registration and the main loop\<close>

text \<open>
  The search for a port that is taken looks at the first \<open>2 * count + 1\<close> used ports.
\<close>

definition port_available :: "int list \<Rightarrow> nat \<Rightarrow> storage_info \<Rightarrow> bool" where
  "port_available used_ports count si =
     list_all (\<lambda>p. si_naming_port si \<noteq> p \<and> si_client_port si \<noteq> p) (take (2 * count + 1) used_ports)"

text \<open>
  The loop over the accessible paths: every row goes into the map and into the cache. The keys of
  the cache point to the rows of the local structure, at the addresses \<open>rows\<close>; \<open>news\<close> are the
  addresses \<^verbatim>\<open>malloc\<close> returns for the nodes.
\<close>

fun register_paths ::
  "addr \<Rightarrow> int \<Rightarrow> string list \<Rightarrow> addr list \<Rightarrow> addr list \<Rightarrow> hashmap \<Rightarrow> lru \<Rightarrow> fault + hashmap \<times> lru" where
  "register_paths junk n (p # ps) (r # rs) (a # as) m l =
     fbind (set_value m p n) (\<lambda>m.
     fbind (put_LRU l r n a junk) (\<lambda>l.
     register_paths junk n ps rs as m l))"
| "register_paths junk n _ _ _ m l = Inr (m, l)"

text \<open>Receiving the structure overwrites the rows, and with them the strings the cache points to.\<close>

definition overwrite_rows :: "addr list \<Rightarrow> string list \<Rightarrow> lru \<Rightarrow> lru" where
  "overwrite_rows rows paths l =
     l\<lparr>lru_strings := foldl (\<lambda>f (r, p). f(r \<mapsto> p)) (lru_strings l) (zip rows paths)\<rparr>"

text \<open>Entering the storage server in the tables; the array of them has no room for more than \<^verbatim>\<open>MAX_SS\<close>.\<close>

definition enter_server ::
  "addr list \<Rightarrow> addr list \<Rightarrow> addr \<Rightarrow> storage_info \<Rightarrow> ('z naming_scheme, unit) io" where
  "enter_server rows news junk si =
     io_bind (io_get ns_count) (\<lambda>count.
     if MAX_SS \<le> count then io_fault OutOfBounds
     else
       io_bind (io_update (ns_infos_update (\<lambda>infos. infos[count := si]))) (\<lambda>_.
       io_bind (io_get ns_paths) (\<lambda>m.
       io_bind (io_get ns_lru) (\<lambda>l.
       io_bind (io_lift (register_paths junk (int count) (si_paths si) rows news m l)) (\<lambda>(m, l).
       io_bind (io_update (\<lambda>w. w\<lparr>ns_paths := m, ns_lru := l\<rparr>)) (\<lambda>_.
       io_bind show_paths (\<lambda>_.
       io_bind (io_update (ns_count_update Suc)) (\<lambda>_.
       io_update (ns_used_ports_update (\<lambda>u.
         u[2 * (count + 1) - 1 := si_naming_port si, 2 * (count + 1) := si_client_port si]))))))))))"

definition register_server ::
  "addr list \<Rightarrow> addr list \<Rightarrow> addr \<Rightarrow> nat \<Rightarrow> ('z naming_scheme, unit) io" where
  "register_server rows news junk s =
     io_bind (reply s (''Initialising storage serevr with server info'' @ [CHR 0x0A] @ white)) (\<lambda>_.
     io_bind (recv_or_exit s info_size) (\<lambda>bs.
     io_bind (io_lift (decode_info bs)) (\<lambda>si.
     io_bind (io_update (ns_lru_update (overwrite_rows rows (si_paths si)))) (\<lambda>_.
     io_bind (io_get ns_count) (\<lambda>count.
     io_bind (io_get ns_used_ports) (\<lambda>used_ports.
     if length used_ports < 2 * count + 1 then io_fault OutOfBounds
     else if \<not> port_available used_ports count si
     then io_bind (reply s ''FAIL'') (\<lambda>_. close_socket s)
     else io_bind (enter_server rows news junk si) (\<lambda>_.
          io_bind (reply s ''ACK'') (\<lambda>_.
          close_socket s))))))))"

text \<open>
  A new connection: a client gets a thread, whose rows are not initialised, a storage server is
  registered, anything else is turned away.
\<close>

definition accept_connection ::
  "addr list \<Rightarrow> addr list \<Rightarrow> addr \<Rightarrow> string list \<Rightarrow> nat \<Rightarrow> ('z naming_scheme, unit) io" where
  "accept_connection rows news junk junk_args s =
     io_bind (recv_or_exit s MAX_BUFFER_SIZE) (\<lambda>bs.
     io_bind (received_string MAX_BUFFER_SIZE bs) (\<lambda>kind.
     if strcaseeq kind ''c''
     then io_bind (reply s (''Initializing new thread for client connection'' @ [CHR 0x0A] @ white)) (\<lambda>_.
          io_update (ns_clients_update (\<lambda>f. f(s \<mapsto> junk_args))))
     else if strcaseeq kind ''s'' then register_server rows news junk s
     else io_bind (reply s (''Invalid input, please try again'' @ [CHR 0x0A] @ white)) (\<lambda>_. close_socket s)))"

text \<open>
  What a client thread does before its loop: it asks the cache for a path, \<open>lit\<close> being the address
  of the literal.
\<close>

definition client_handler_start :: "addr \<Rightarrow> ('z naming_scheme, unit) io" where
  "client_handler_start lit =
     io_bind (io_get ns_lru) (\<lambda>l.
     io_bind (io_lift (get_LRU l lit)) (\<lambda>(v, l).
     io_update (ns_lru_update (\<lambda>_. l))))"

text \<open>Behind its loop the thread closes the socket and ends.\<close>

definition client_thread_end :: "nat \<Rightarrow> ('z naming_scheme, unit) io" where
  "client_thread_end c = io_bind (io_update (ns_clients_update (\<lambda>f. f(c := None)))) (\<lambda>_. close_socket c)"

text \<open>A turn of a client thread in the system: its rows are kept, or the thread ends.\<close>

definition client_thread_turn :: "nat \<Rightarrow> ('z naming_scheme, unit) io" where
  "client_thread_turn c =
     io_bind (io_get (\<lambda>w. ns_clients w c)) (\<lambda>rows.
     case rows of
       None \<Rightarrow> io_wait
     | Some args \<Rightarrow>
         io_bind (client_handler_turn c args) (\<lambda>(args, left).
         if left
         then client_thread_end c
         else io_update (ns_clients_update (\<lambda>f. f(c \<mapsto> args)))))"

text \<open>The state of \<^verbatim>\<open>main\<close> when it begins to accept connections.\<close>

definition empty_info :: storage_info where
  "empty_info = \<lparr>si_ip = [], si_naming_port = 0, si_client_port = 0, si_paths = replicate MAX_ACC_PATHS []\<rparr>"

definition naming_start :: "world \<Rightarrow> lru \<Rightarrow> naming" where
  "naming_start w l =
     world.extend w
       \<lparr>ns_count = 0, ns_infos = replicate MAX_SS empty_info,
        ns_used_ports = (replicate (MAX_SS * 2 + 1) 0)[0 := NAMING_SERVER_PORT],
        ns_paths = hashmap_create, ns_lru = l, ns_clients = (\<lambda>_. None)\<rparr>"

end
