(* ===== verification/Transfers.thy ===== *)
theory Transfers
  imports Storage_Server Client Naming_Server
begin

text \<open>
  File transfers between the programs. Each side is run on what the other one sends; the theory
  shows that the two runs fit together and what ends up in the files and on the terminal. Packets
  are delivered whole and sends succeed here.
\<close>

section \<open>Runs on given packets\<close>

fun sends :: "nat \<Rightarrow> event list \<Rightarrow> string list" where
  "sends s [] = []"
| "sends s (Sent t bs # es) = (if t = s then bs # sends s es else sends s es)"
| "sends s (_ # es) = sends s es"

fun prints :: "event list \<Rightarrow> string list" where
  "prints [] = []"
| "prints (Printed l # es) = l # prints es"
| "prints (_ # es) = prints es"

lemma sends_append [simp]: "sends s (xs @ ys) = sends s xs @ sends s ys"
  by (induction xs rule: sends.induct) auto

lemma prints_append [simp]: "prints (xs @ ys) = prints xs @ prints ys"
  by (induction xs rule: prints.induct) auto

definition feed :: "nat \<Rightarrow> string list \<Rightarrow> 'z world_scheme \<Rightarrow> 'z world_scheme" where
  "feed s bss w = w\<lparr>w_in := (w_in w)(s := map Some bss)\<rparr>"

text \<open>What a run adds to the events, on a socket and on the terminal.\<close>

definition new_events :: "'z world_scheme \<Rightarrow> 'y world_scheme \<Rightarrow> event list" where
  "new_events w w' = drop (length (w_events w)) (w_events w')"

text \<open>
  A finished conversation of two programs: each one received exactly the packets that the other
  one sent.
\<close>

definition talk ::
  "nat \<Rightarrow> ('x world_scheme, 'a) io \<Rightarrow> 'x world_scheme \<Rightarrow> nat \<Rightarrow> ('y world_scheme, 'b) io \<Rightarrow> 'y world_scheme \<Rightarrow>
   'a \<Rightarrow> 'x world_scheme \<Rightarrow> 'b \<Rightarrow> 'y world_scheme \<Rightarrow> bool" where
  "talk s1 m1 w1 s2 m2 w2 r1 v1 r2 v2 \<longleftrightarrow>
     m1 (feed s1 (sends s2 (new_events w2 v2)) w1) = Done r1 v1 \<and>
     m2 (feed s2 (sends s1 (new_events w1 v1)) w2) = Done r2 v2"

text \<open>
  Changes of the world in a normal form: files outermost, then events, then streams.
\<close>

definition set_in :: "nat \<Rightarrow> string option list \<Rightarrow> 'z world_scheme \<Rightarrow> 'z world_scheme" where
  "set_in s q w = w\<lparr>w_in := (w_in w)(s := q)\<rparr>"

definition emit :: "event list \<Rightarrow> 'z world_scheme \<Rightarrow> 'z world_scheme" where
  "emit es w = w\<lparr>w_events := w_events w @ es\<rparr>"

definition set_file :: "string \<Rightarrow> string \<Rightarrow> 'z world_scheme \<Rightarrow> 'z world_scheme" where
  "set_file name s w = w\<lparr>w_files := (w_files w)(name \<mapsto> File s)\<rparr>"

lemma set_in_fields [simp]:
  "w_in (set_in s q w) t = (if t = s then q else w_in w t)" "w_send_ok (set_in s q w) = w_send_ok w"
  "w_files (set_in s q w) = w_files w" "w_events (set_in s q w) = w_events w"
  "w_stdin (set_in s q w) = w_stdin w" "w_locked (set_in s q w) = w_locked w"
  by (simp_all add: set_in_def)

lemma emit_fields [simp]:
  "w_in (emit es w) = w_in w" "w_send_ok (emit es w) = w_send_ok w" "w_files (emit es w) = w_files w"
  "w_events (emit es w) = w_events w @ es" "w_stdin (emit es w) = w_stdin w" "w_locked (emit es w) = w_locked w"
  by (simp_all add: emit_def)

lemma set_file_fields [simp]:
  "w_in (set_file n s w) = w_in w" "w_send_ok (set_file n s w) = w_send_ok w"
  "w_files (set_file n s w) = (w_files w)(n \<mapsto> File s)" "w_events (set_file n s w) = w_events w"
  "w_stdin (set_file n s w) = w_stdin w" "w_locked (set_file n s w) = w_locked w"
  by (simp_all add: set_file_def)

lemma world_normal [simp]:
  "set_in s q (emit es w) = emit es (set_in s q w)" "set_in s q (set_file n t w) = set_file n t (set_in s q w)"
  "emit es (set_file n t w) = set_file n t (emit es w)" "set_in s q (set_in s r w) = set_in s q w"
  "emit es (emit fs w) = emit (fs @ es) w" "set_file n t (set_file n u w) = set_file n t w" "emit [] w = w"
  by (simp_all add: set_in_def emit_def set_file_def)

lemma set_in_same: "w_in w s = q \<Longrightarrow> set_in s q w = w"
  by (auto simp: set_in_def)

lemma set_file_same: "w_files w n = Some (File t) \<Longrightarrow> set_file n t w = w"
proof -
  assume "w_files w n = Some (File t)"
  then have "(w_files w)(n \<mapsto> File t) = w_files w" by auto
  then show ?thesis by (simp add: set_file_def)
qed

lemma feed_set_in: "feed s bss w = set_in s (map Some bss) w"
  by (simp add: feed_def set_in_def)

lemma new_events_emit [simp]:
  "new_events w (emit es w) = es" "new_events w (emit es (set_in s q w)) = es"
  "new_events w (set_file n t v) = new_events w v"
  by (simp_all add: new_events_def)

named_theorems run_simps "system calls that succeed"

lemma send_succeeds [run_simps]: "w_send_ok w = [] \<Longrightarrow> send s bs w = Done True (emit [Sent s bs] w)"
  by (simp add: send_def happens_def emit_def)

lemma send_or_exit_succeeds [run_simps]:
  "w_send_ok w = [] \<Longrightarrow> send_or_exit s bs w = Done () (emit [Sent s bs] w)"
  by (simp add: send_or_exit_def io_simps send_succeeds)

lemma recv_whole [run_simps]:
  "w_in w s = Some bs # q \<Longrightarrow> length bs \<le> n \<Longrightarrow> recv s n w = Done (Some bs) (set_in s q w)"
  by (simp add: recv_def set_in_def)

lemma recv_or_exit_whole [run_simps]:
  "w_in w s = Some bs # q \<Longrightarrow> length bs \<le> n \<Longrightarrow> recv_or_exit s n w = Done bs (set_in s q w)"
  by (simp add: recv_or_exit_def io_simps recv_whole)

lemma received_string_Inr [run_simps]:
  "buffer_string n bs = Inr t \<Longrightarrow> received_string n bs w = Done t w"
  by (simp add: received_string_def io_simps)

lemma print_line_run [run_simps]: "print_line l w = Done () (emit [Printed l] w)"
  by (simp add: print_line_def io_simps happens_def emit_def)

lemma close_socket_run [run_simps]: "close_socket s w = Done () (emit [Closed s] w)"
  by (simp add: close_socket_def io_simps happens_def emit_def)

lemma append_file_run [run_simps]:
  "w_files w name = Some (File old) \<Longrightarrow> append_file name bs w = Done () (set_file name (old @ bs) w)"
  by (simp add: append_file_def set_file_def)

lemma open_read_run [run_simps]:
  "w_files w name = Some (File content) \<Longrightarrow> open_read name w = Done (Some content) w"
  by (simp add: open_read_def)

lemma open_write_run [run_simps]:
  "\<not> w_locked w name \<Longrightarrow> w_files w name \<noteq> Some Dir \<Longrightarrow> open_write name w = Done True (set_file name [] w)"
  by (simp add: open_write_def set_file_def)

section \<open>Packets\<close>

abbreviation ACK_packet :: string where "ACK_packet \<equiv> buffer (CHUNK_SIZE + 1) ''ACK''"

abbreviation STOP_packet :: string where "STOP_packet \<equiv> buffer (CHUNK_SIZE + 1) ''STOP''"

lemma ACK_string [simp]: "buffer_string (Suc CHUNK_SIZE) (buffer (Suc CHUNK_SIZE) ''ACK'') = Inr ''ACK''"
  by (rule buffer_string_buffer) (simp_all add: NUL_def CHUNK_SIZE_def)

lemma STOP_string [simp]: "buffer_string (Suc CHUNK_SIZE) (buffer (Suc CHUNK_SIZE) ''STOP'') = Inr ''STOP''"
  by (rule buffer_string_buffer) (simp_all add: NUL_def CHUNK_SIZE_def)

text \<open>A packet that carries data: it fits, and it does not read as STOP.\<close>

definition data_packet :: "string \<Rightarrow> bool" where
  "data_packet p \<longleftrightarrow> length p \<le> CHUNK_SIZE \<and> \<not> strcaseeq (cstr p) ''STOP''"

lemma data_packet_string [simp]: "data_packet p \<Longrightarrow> buffer_string (Suc CHUNK_SIZE) p = Inr (cstr p)"
  by (simp add: data_packet_def buffer_string_def)

lemma data_packetD [simp]:
  "data_packet p \<Longrightarrow> length p \<le> Suc CHUNK_SIZE" "data_packet p \<Longrightarrow> \<not> strcaseeq (cstr p) ''STOP''"
  by (simp_all add: data_packet_def)

section \<open>The four loops\<close>

lemma write_loop_run:
  assumes "w_send_ok w = []" and "list_all data_packet ps"
    and "w_in w s = map Some ps @ Some STOP_packet # q" and "w_files w name = Some (File old)"
  shows "write_loop s name w = Done ()
    (set_file name (old @ concat (map cstr ps))
      (emit (replicate (length ps + 1) (Sent s ACK_packet)) (set_in s q w)))"
  using assms
proof (induction ps arbitrary: w old)
  case Nil
  then show ?case
    by (subst write_loop.simps) (simp add: io_simps run_simps set_file_same)
next
  case (Cons p ps)
  let ?w = "set_file name (old @ cstr p) (emit [Sent s ACK_packet] (set_in s (map Some ps @ Some STOP_packet # q) w))"
  have "write_loop s name w = write_loop s name ?w"
    using Cons.prems by (subst write_loop.simps) (simp add: io_simps run_simps)
  also have "\<dots> = Done () (set_file name ((old @ cstr p) @ concat (map cstr ps))
      (emit (replicate (length ps + 1) (Sent s ACK_packet)) (set_in s q ?w)))"
    by (rule Cons.IH) (use Cons.prems in simp_all)
  finally show ?case by simp
qed

lemma send_chunks_run:
  assumes "w_send_ok w = []" and "w_in w s = replicate (length cs) (Some ACK_packet) @ q"
  shows "send_chunks s cs w = Done () (emit (map (Sent s) cs) (set_in s q w))"
  using assms
proof (induction cs arbitrary: w)
  case Nil
  then show ?case by (simp add: io_simps set_in_same)
next
  case (Cons c cs)
  let ?w = "emit [Sent s c] (set_in s (replicate (length cs) (Some ACK_packet) @ q) w)"
  have "send_chunks s (c # cs) w = send_chunks s cs ?w"
    using Cons.prems by (simp add: io_simps run_simps)
  also have "\<dots> = Done () (emit (map (Sent s) cs) (set_in s q ?w))"
    by (rule Cons.IH) (use Cons.prems in simp_all)
  finally show ?case by simp
qed

definition read_events :: "nat \<Rightarrow> string list \<Rightarrow> event list" where
  "read_events s ps = concat (map (\<lambda>p. [Sent s ACK_packet, Printed (cstr p)]) ps) @ [Sent s ACK_packet]"

lemma read_events_simps [simp]:
  "read_events s [] = [Sent s ACK_packet]"
  "read_events s (p # ps) = [Sent s ACK_packet, Printed (cstr p)] @ read_events s ps"
  by (simp_all add: read_events_def)

lemma read_loop_run:
  assumes "w_send_ok w = []" and "list_all data_packet ps"
    and "w_in w s = map Some ps @ Some STOP_packet # q"
  shows "read_loop s w = Done True (emit (read_events s ps) (set_in s q w))"
  using assms
proof (induction ps arbitrary: w)
  case Nil
  then show ?case
    by (subst read_loop.simps) (simp add: io_simps run_simps)
next
  case (Cons p ps)
  let ?w = "emit [Sent s ACK_packet, Printed (cstr p)] (set_in s (map Some ps @ Some STOP_packet # q) w)"
  have "read_loop s w = read_loop s ?w"
    using Cons.prems by (subst read_loop.simps) (simp add: io_simps run_simps)
  also have "\<dots> = Done True (emit (read_events s ps) (set_in s q ?w))"
    by (rule Cons.IH) (use Cons.prems in simp_all)
  finally show ?case by simp
qed

lemma write_chunks_run:
  assumes "w_send_ok w = []" and "w_in w s = replicate (length cs) (Some ACK_packet) @ q"
  shows "write_chunks s cs w = Done True (emit (map (Sent s) cs) (set_in s q w))"
  using assms
proof (induction cs arbitrary: w)
  case Nil
  then show ?case by (simp add: io_simps set_in_same)
next
  case (Cons c cs)
  let ?w = "emit [Sent s c] (set_in s (replicate (length cs) (Some ACK_packet) @ q) w)"
  have "write_chunks s (c # cs) w = write_chunks s cs ?w"
    using Cons.prems by (simp add: io_simps run_simps)
  also have "\<dots> = Done True (emit (map (Sent s) cs) (set_in s q ?w))"
    by (rule Cons.IH) (use Cons.prems in simp_all)
  finally show ?case by simp
qed

section \<open>Semaphores of an idle file\<close>

text \<open>The values the three arrays have for file \<open>i\<close>.\<close>

definition put_sems :: "int \<Rightarrow> nat \<Rightarrow> nat \<Rightarrow> int \<Rightarrow> 'z storage_scheme \<Rightarrow> 'z storage_scheme" where
  "put_sems i a b n w =
     w\<lparr>ss_semaphores := (ss_semaphores w)(i \<mapsto> a), ss_semlocks := (ss_semlocks w)(i \<mapsto> b),
       ss_reader_count := (ss_reader_count w)(i := n)\<rparr>"

definition has_sems :: "int \<Rightarrow> nat \<Rightarrow> nat \<Rightarrow> int \<Rightarrow> 'z storage_scheme \<Rightarrow> bool" where
  "has_sems i a b n w \<longleftrightarrow>
     0 \<le> i \<and> i < int MAX_ASSOCIATED_FILES \<and>
     ss_semaphores w i = Some a \<and> ss_semlocks w i = Some b \<and> ss_reader_count w i = n"

lemma put_sems_same: "has_sems i a b n w \<Longrightarrow> put_sems i a b n w = w"
proof -
  assume "has_sems i a b n w"
  then have "(ss_semaphores w)(i \<mapsto> a) = ss_semaphores w" "(ss_semlocks w)(i \<mapsto> b) = ss_semlocks w"
    "(ss_reader_count w)(i := n) = ss_reader_count w" by (auto simp: has_sems_def)
  then show ?thesis by (simp add: put_sems_def)
qed

lemma put_sems_normal [simp]:
  "put_sems i a b n (emit es w) = emit es (put_sems i a b n w)"
  "put_sems i a b n (set_in s q w) = set_in s q (put_sems i a b n w)"
  "put_sems i a b n (set_file f t w) = set_file f t (put_sems i a b n w)"
  "put_sems i a b n (put_sems i a' b' n' w) = put_sems i a b n w"
  "w_in (put_sems i a b n w) = w_in w" "w_files (put_sems i a b n w) = w_files w"
  "w_send_ok (put_sems i a b n w) = w_send_ok w" "w_events (put_sems i a b n w) = w_events w"
  "ss_path_to_sem (put_sems i a b n w) = ss_path_to_sem w" "w_locked (put_sems i a b n w) = w_locked w"
  by (simp_all add: put_sems_def emit_def set_in_def set_file_def)

lemma has_sems_normal [simp]:
  "has_sems i a b n (emit es w) = has_sems i a b n w" "has_sems i a b n (set_in s q w) = has_sems i a b n w"
  "has_sems i a b n (set_file f t w) = has_sems i a b n w"
  "has_sems i a b n (put_sems i a' b' n' w) \<longleftrightarrow>
     0 \<le> i \<and> i < int MAX_ASSOCIATED_FILES \<and> a = a' \<and> b = b' \<and> n = n'"
  by (auto simp: has_sems_def put_sems_def emit_def set_in_def set_file_def)

lemma sem_runs:
  assumes "has_sems i a b n w"
  shows "0 < a \<Longrightarrow> wait_semaphore i w = Done () (put_sems i (a - 1) b n w)"
    and "0 < b \<Longrightarrow> wait_semlock i w = Done () (put_sems i a (b - 1) n w)"
    and "post_semaphore i w = Done () (put_sems i (a + 1) b n w)"
    and "post_semlock i w = Done () (put_sems i a (b + 1) n w)"
proof -
  have [simp]: "(ss_semaphores w)(i \<mapsto> a) = ss_semaphores w" "(ss_semlocks w)(i \<mapsto> b) = ss_semlocks w"
    "(ss_reader_count w)(i := n) = ss_reader_count w"
    using assms by (auto simp: has_sems_def)
  show "0 < a \<Longrightarrow> wait_semaphore i w = Done () (put_sems i (a - 1) b n w)"
    "0 < b \<Longrightarrow> wait_semlock i w = Done () (put_sems i a (b - 1) n w)"
    "post_semaphore i w = Done () (put_sems i (a + 1) b n w)"
    "post_semlock i w = Done () (put_sems i a (b + 1) n w)"
    using assms by (simp_all add: has_sems_def sem_wait_def sem_post_def put_sems_def io_simps)
qed

text \<open>What a reader does before and after, from any values.\<close>

lemma reader_enter_cases:
  assumes "has_sems i a b n w"
  shows "reader_enter i w =
    (if b = 0 then Blocked w
     else if 0 \<le> n \<and> a = 0 then Blocked (put_sems i a (b - 1) (n + 1) w)
     else Done () (put_sems i (if 0 \<le> n then a - 1 else a) b (n + 1) w))"
  using assms put_sems_same [OF assms]
  by (cases w) (auto simp: reader_enter_def sem_wait_def sem_post_def io_simps has_sems_def put_sems_def io_bind_def)

lemma reader_leave_cases:
  assumes "has_sems i a b n w"
  shows "reader_leave i w =
    (if b = 0 then Blocked w else Done () (put_sems i (if n = 1 then a + 1 else a) b (n - 1) w))"
  using assms put_sems_same [OF assms]
  by (cases w) (auto simp: reader_leave_def sem_wait_def sem_post_def io_simps has_sems_def put_sems_def io_bind_def)

lemma reader_enter_idle: "has_sems i 1 1 0 w \<Longrightarrow> reader_enter i w = Done () (put_sems i 0 1 1 w)"
  using reader_enter_cases [of i 1 1 0 w] by simp

lemma reader_leave_single: "has_sems i 0 1 1 w \<Longrightarrow> reader_leave i w = Done () (put_sems i 1 1 0 w)"
  using reader_leave_cases [of i 0 1 1 w] by simp

section \<open>READ\<close>

lemma read_file_run:
  assumes ok: "w_send_ok w = []" and content: "w_files w (''.'' @ path) = Some (File content)"
    and sems: "has_sems i 1 1 0 w" and acks: "w_in w s = replicate (length (chunks content)) (Some ACK_packet) @ q"
  shows "read_file s path i w =
    Done () (emit (map (Sent s) (chunks content) @ [Sent s STOP_packet, Closed s]) (set_in s q w))"
proof -
  have i: "0 \<le> i" "i < int MAX_ASSOCIATED_FILES" using sems by (auto simp: has_sems_def)
  let ?w = "put_sems i 0 1 1 w"
  have "send_chunks s (chunks content) ?w = Done () (emit (map (Sent s) (chunks content)) (set_in s q ?w))"
    by (rule send_chunks_run) (use ok acks in simp_all)
  moreover have "reader_leave i (emit (map (Sent s) (chunks content) @ [Sent s STOP_packet]) (set_in s q ?w)) =
      Done () (emit (map (Sent s) (chunks content) @ [Sent s STOP_packet]) (set_in s q w))"
    using reader_leave_single [of i "emit (map (Sent s) (chunks content) @ [Sent s STOP_packet]) (set_in s q ?w)"]
      i put_sems_same [OF sems] by simp
  ultimately show ?thesis
    using ok content reader_enter_idle [OF sems] by (simp add: read_file_def io_simps run_simps)
qed

lemma sends_read_events [simp]: "sends s (read_events s ps) = replicate (length ps + 1) ACK_packet"
  by (induction ps) auto

lemma prints_read_events [simp]: "prints (read_events s ps) = map cstr ps"
  by (induction ps) auto

lemma sends_map [simp]: "sends s (map (Sent s) cs) = cs"
  by (induction cs) auto

lemma sends_replicate [simp]: "sends s (replicate n (Sent s c)) = replicate n c"
  by (induction n) auto

lemma replicate_split: "replicate (Suc n) x = replicate n x @ [x]"
  by (induction n) auto

text \<open>The content of a file that the text protocol can carry: no chunk of it reads as STOP.\<close>

definition transferable :: "string \<Rightarrow> bool" where
  "transferable content \<longleftrightarrow> list_all (\<lambda>c. \<not> strcaseeq (cstr c) ''STOP'') (chunks content)"

lemma transferable_packets: "transferable content \<Longrightarrow> list_all data_packet (chunks content)"
  using chunks_size by (auto simp: transferable_def list_all_iff data_packet_def)

text \<open>What the string functions keep of a file: of every chunk the bytes before the first zero.\<close>

definition carried :: "string \<Rightarrow> string" where
  "carried content = concat (map cstr (chunks content))"

lemma carried_text: "NUL \<notin> set content \<Longrightarrow> carried content = content"
proof -
  assume "NUL \<notin> set content"
  then have "map cstr (chunks content) = chunks content"
    using chunks_chars by (intro map_idI cstr_id) blast
  then show ?thesis by (simp add: carried_def)
qed

text \<open>The path is registered on the storage server under the index \<open>i\<close>.\<close>

definition serves :: "'z storage_scheme \<Rightarrow> string \<Rightarrow> int \<Rightarrow> bool" where
  "serves w path i \<longleftrightarrow>
     pm_inv (ss_path_to_sem w) \<and> path \<noteq> [] \<and> length path \<le> 4090 \<and>
     map_of (registered w) path = Some i \<and> i \<noteq> - 1"

lemma serves_get: "serves w path i \<Longrightarrow> get_value (ss_path_to_sem w) path = Inr i"
proof -
  assume s: "serves w path i"
  then obtain t where "format_key path = Inr t" using format_key_fits by (auto simp: serves_def)
  with s get_value_law [of "ss_path_to_sem w" path] show ?thesis by (simp add: serves_def)
qed

text \<open>
  READ end to end: the storage server and the client, each fed with the packets the other
  one sends, both finish successfully; what the client prints is the file, chunk by chunk, up to
  the first zero byte of each chunk, and a file without zero bytes arrives whole.
\<close>

theorem read_end_to_end:
  assumes "w_send_ok ws = []" and "w_send_ok wc = []" and "serves ws path i" and "has_sems i 1 1 0 ws"
    and "w_files ws (''.'' @ path) = Some (File content)" and "transferable content"
  shows "\<exists>ws' wc'. talk s (readServerSide [cmd, path] 2 s) ws c (readClientSide c) wc 1 ws' 1 wc' \<and>
    concat (prints (new_events wc wc')) = carried content \<and>
    (NUL \<notin> set content \<longrightarrow> concat (prints (new_events wc wc')) = content) \<and>
    has_sems i 1 1 0 ws'"
proof -
  let ?cs = "chunks content"
  let ?es = "map (Sent s) ?cs @ [Sent s STOP_packet, Closed s]"
  let ?ec = "read_events c ?cs @ [Closed c]"
  let ?ws = "emit ?es (set_in s [Some ACK_packet] ws)" and ?wc = "emit ?ec (set_in c [] wc)"
  have "read_loop c (set_in c (map Some ?cs @ [Some STOP_packet]) wc) =
      Done True (emit (read_events c ?cs) (set_in c [] (set_in c (map Some ?cs @ [Some STOP_packet]) wc)))"
    by (rule read_loop_run) (use assms transferable_packets in simp_all)
  then have client: "readClientSide c (feed c (?cs @ [STOP_packet]) wc) = Done 1 ?wc"
    by (simp add: readClientSide_def feed_set_in io_simps run_simps)
  let ?w0 = "set_in s (map Some (replicate (length ?cs + 1) ACK_packet)) ws"
  have "read_file s path i ?w0 = Done () (emit ?es (set_in s [Some ACK_packet] ?w0))"
    by (rule read_file_run) (use assms in \<open>simp_all add: replicate_split del: replicate.simps\<close>)
  moreover have "ss_path_to_sem ?w0 = ss_path_to_sem ws" by (simp add: set_in_def)
  ultimately have server: "readServerSide [cmd, path] 2 s (feed s (replicate (length ?cs + 1) ACK_packet) ws) = Done 1 ?ws"
    using serves_get [OF assms(3)] assms(3)
    by (simp add: readServerSide_def feed_set_in io_simps serves_def del: map_replicate replicate.simps)
  have "talk s (readServerSide [cmd, path] 2 s) ws c (readClientSide c) wc 1 ?ws 1 ?wc"
    using client server by (simp add: talk_def del: replicate.simps)
  moreover have "concat (prints (new_events wc ?wc)) = carried content" by (simp add: carried_def)
  ultimately show ?thesis using carried_text assms(4) by (intro exI [of _ ?ws] exI [of _ ?wc]) simp
qed

section \<open>WRITE\<close>

lemma write_to_file_run:
  assumes ok: "w_send_ok w = []" and free: "\<not> w_locked w (''.'' @ path)" "w_files w (''.'' @ path) \<noteq> Some Dir"
    and sems: "has_sems i 1 1 0 w" and packets: "list_all data_packet ps"
    and input: "w_in w s = map Some ps @ Some STOP_packet # q"
  shows "write_to_file s path i w = Done ()
    (set_file (''.'' @ path) (concat (map cstr ps))
      (emit (replicate (length ps + 1) (Sent s ACK_packet) @ [Closed s]) (set_in s q w)))"
proof -
  have i: "0 \<le> i" "i < int MAX_ASSOCIATED_FILES" using sems by (auto simp: has_sems_def)
  let ?f = "''.'' @ path" and ?acks = "replicate (length ps + 1) (Sent s ACK_packet)"
  let ?w = "put_sems i 0 1 0 (set_file ?f [] w)"
  have "wait_semaphore i (set_file ?f [] w) = Done () ?w"
    using sem_runs(1) [of i 1 1 0 "set_file ?f [] w"] sems by simp
  moreover have "write_loop s ?f ?w = Done () (set_file ?f (concat (map cstr ps)) (emit ?acks (set_in s q ?w)))"
    using write_loop_run [of ?w ps s q ?f "[]"] ok packets input by simp
  moreover have "post_semaphore i (set_file ?f (concat (map cstr ps)) (emit ?acks (set_in s q ?w))) =
      Done () (set_file ?f (concat (map cstr ps)) (emit ?acks (set_in s q w)))"
    using sem_runs(3) [of i 0 1 0 "set_file ?f (concat (map cstr ps)) (emit ?acks (set_in s q ?w))"]
      i put_sems_same [OF sems] by simp
  ultimately show ?thesis
    using free by (simp add: write_to_file_def io_simps run_simps del: replicate.simps)
qed

text \<open>The client's side: the line typed names the file.\<close>

lemma writeClientSide_run:
  assumes ok: "w_send_ok w = []" and line: "w_stdin w = line # lines" "length line < PATH_MAX" "scan_s line = Some name"
    and content: "w_files w name = Some (File content)"
    and acks: "w_in w s = replicate (length (chunks content)) (Some ACK_packet) @ q"
  shows "writeClientSide s w = Done 1 ((emit (map (Sent s) (chunks content) @ [Sent s STOP_packet, Closed s])
    (set_in s q w))\<lparr>w_stdin := lines\<rparr>)"
proof -
  let ?w = "w\<lparr>w_stdin := lines\<rparr>"
  have gets: "fgets PATH_MAX w = Done (Some line) ?w" using line by (simp add: fgets_def)
  have "write_chunks s (chunks content) ?w = Done True (emit (map (Sent s) (chunks content)) (set_in s q ?w))"
    by (rule write_chunks_run) (use ok acks in simp_all)
  then show ?thesis
    using gets ok content line(3)
    by (simp add: writeClientSide_def send_or_0_def io_simps run_simps emit_def set_in_def)
qed


text \<open>
  Claim C36. While a reader holds the semaphore of the file, a writer waits, but only after it has
  opened the file for writing: the file is already empty.
\<close>

theorem write_truncates_before_waiting:
  assumes "has_sems i 0 b n w" and "\<not> w_locked w (''.'' @ path)" and "w_files w (''.'' @ path) \<noteq> Some Dir"
  shows "\<exists>w'. write_to_file s path i w = Blocked w' \<and> w_files w' (''.'' @ path) = Some (File [])"
proof -
  have "wait_semaphore i (set_file (''.'' @ path) [] w) = Blocked (set_file (''.'' @ path) [] w)"
    using assms(1) by (auto simp: sem_wait_def has_sems_def set_file_def)
  then show ?thesis using assms(2,3) by (simp add: write_to_file_def io_simps run_simps)
qed

text \<open>
  Claim C35. A file made with CREATE cannot be read or written: its semaphores were never
  initialised, and the first of them is waited for.
\<close>

theorem created_file_unusable:
  assumes "storage_ok w" and "plain (path @ ''/'' @ filename)" and "length (path @ ''/'' @ filename) \<le> 4090"
    and "exec (if has_extension filename then [''touch'', ''.'' @ path @ ''/'' @ filename]
        else [''mkdir'', ''.'' @ path @ ''/'' @ filename]) (w_files w) = Some (fs, True)"
    and "ss_associated_files w < int MAX_ASSOCIATED_FILES"
    and "ss_semaphores w (ss_associated_files w) = None" and "ss_semlocks w (ss_associated_files w) = None"
    and "\<not> w_locked w (''.'' @ path @ ''/'' @ filename)" and "fs (''.'' @ path @ ''/'' @ filename) \<noteq> Some Dir"
  shows "\<exists>w'. runCreate exec [c, path, filename] 3 w = Done 1 w' \<and>
    (\<exists>v. readServerSide [r, path @ ''/'' @ filename] 2 s w' = Faulted Uninitialised v) \<and>
    (\<exists>v. writeServerSide [r, path @ ''/'' @ filename] 2 s w' = Faulted Uninitialised v)"
proof -
  let ?n = "path @ ''/'' @ filename"
  from create_law [of w path filename exec fs, OF assms(1-4)] obtain m where
    m: "create exec path filename w =
      Done 1 (w\<lparr>w_files := fs, ss_path_to_sem := m, ss_associated_files := ss_associated_files w + 1\<rparr>)"
    "plain_map m" "pm_entries m = AList.update ?n (ss_associated_files w) (registered w)" by blast
  let ?w = "w\<lparr>w_files := fs, ss_path_to_sem := m, ss_associated_files := ss_associated_files w + 1\<rparr>"
  let ?i = "ss_associated_files w"
  have i: "0 \<le> ?i" using assms(1) by (simp add: storage_ok_def)
  have "serves ?w ?n ?i"
    using m(2,3) assms(3) i by (simp add: serves_def plain_map_def update_conv)
  then have get: "get_value m ?n = Inr ?i" using serves_get [of ?w ?n ?i] by simp
  have "wait_semlock ?i ?w = Faulted Uninitialised ?w"
    using i assms(5,7) by (simp add: sem_wait_def)
  then have "readServerSide [r, ?n] 2 s ?w = Faulted Uninitialised ?w"
    using get i by (simp add: readServerSide_def io_simps read_file_def reader_enter_def)
  moreover have "wait_semaphore ?i (set_file (''.'' @ ?n) [] ?w) = Faulted Uninitialised (set_file (''.'' @ ?n) [] ?w)"
    using i assms(5,6) by (simp add: sem_wait_def set_file_def)
  then have "\<exists>v. writeServerSide [r, ?n] 2 s ?w = Faulted Uninitialised v"
    using get i assms(8,9) by (simp add: writeServerSide_def io_simps write_to_file_def run_simps)
  ultimately show ?thesis using m(1) by (intro exI [of _ ?w]) (simp add: runCreate_def io_simps)
qed

section \<open>DETAILS\<close>

lemma digit_value_digit: "d < 10 \<Longrightarrow> digit_value (digit d) = int d"
proof -
  assume "d < 10"
  then have "(of_char (digit d) :: nat) = 48 + d" by (rule of_char_digit)
  then have "(of_char (digit d) :: int) = int (48 + d)" by (metis of_nat_of_char)
  then show ?thesis by (simp add: digit_value_def)
qed

lemma digit_of: "d < b \<Longrightarrow> b \<le> 10 \<Longrightarrow> is_digit_of (int b) (digit d)"
  by (simp add: is_digit_of_def digit_value_digit)

lemma show_nat_value:
  "foldl (\<lambda>a c. 10 * a + digit_value c) 0 (show_nat n) = int n" "\<forall>c\<in>set (show_nat n). is_digit_of 10 c"
proof (induction n rule: show_nat.induct)
  case (1 n)
  have "10 * (n div 10) + n mod 10 = n" by simp
  then have n: "10 * int (n div 10) + int (n mod 10) = int n" by linarith
  { case 1
    show ?case using "1.IH"(1) n by (subst show_nat.simps) (auto simp: digit_value_digit) }
  { case 2
    show ?case using "1.IH"(2) digit_of [of n 10] digit_of [of "n mod 10" 10]
      by (subst show_nat.simps) auto }
qed

lemma show_oct_value:
  "foldl (\<lambda>a c. 8 * a + digit_value c) 0 (show_oct n) = int n" "\<forall>c\<in>set (show_oct n). is_digit_of 8 c"
  "show_oct n \<noteq> []"
proof (induction n rule: show_oct.induct)
  case (1 n)
  have "8 * (n div 8) + n mod 8 = n" by simp
  then have n: "8 * int (n div 8) + int (n mod 8) = int n" by linarith
  { case 1
    show ?case using "1.IH"(1) n by (subst show_oct.simps) (auto simp: digit_value_digit) }
  { case 2
    show ?case using "1.IH"(2) digit_of [of n 8] digit_of [of "n mod 8" 8]
      by (subst show_oct.simps) auto }
  { case 3
    show ?case by (subst show_oct.simps) simp }
qed

lemma scan_int_digits:
  assumes "ds \<noteq> []" and "\<forall>c\<in>set ds. is_digit_of b c" and "b \<le> 10"
    and "rest = [] \<or> \<not> is_digit_of b (hd rest)"
  shows "scan_int b (ds @ rest) = Some (foldl (\<lambda>a c. b * a + digit_value c) 0 ds, rest)"
proof -
  obtain c cs where ds: "ds = c # cs" using assms(1) by (cases ds) auto
  have c: "0 \<le> digit_value c" "digit_value c < 10" using assms(2,3) ds by (auto simp: is_digit_of_def)
  then have "\<not> is_space c" "c \<noteq> CHR ''-''" "c \<noteq> CHR ''+''"
    using of_nat_of_char [of c, where 'a = int] by (auto simp: is_space_def digit_value_def)
  moreover have "takeWhile (is_digit_of b) (ds @ rest) = ds"
    using assms(2,4) by (cases rest) (auto simp: takeWhile_append)
  ultimately show ?thesis by (simp add: scan_int_def ds skip_space_def Let_def)
qed

lemma scan_int_blank: "scan_int b (CHR '' '' # s) = scan_int b s"
  by (simp add: scan_int_def skip_space_def)

lemma not_digit_blank: "\<not> is_digit_of b CHR '' ''"
  by (simp add: is_digit_of_def digit_value_def)

lemma scan_int_show:
  assumes "rest = [] \<or> hd rest = CHR '' ''"
  shows "scan_int 10 (show_int i @ rest) = Some (i, rest)"
proof -
  have r: "rest = [] \<or> \<not> is_digit_of 10 (hd rest)" using assms not_digit_blank by auto
  have pos: "scan_int 10 (show_nat n @ rest) = Some (int n, rest)" for n
    using scan_int_digits [OF show_nat_nonempty show_nat_value(2) _ r] show_nat_value(1) by simp
  show ?thesis
  proof (cases "i < 0")
    case False
    then show ?thesis using pos [of "nat i"] by (simp add: show_int_def)
  next
    case True
    let ?ds = "show_nat (nat (- i))"
    have tw: "takeWhile (is_digit_of 10) (?ds @ rest) = ?ds"
      using show_nat_value(2) [of "nat (- i)"] r by (cases rest) (auto simp: takeWhile_append)
    have "\<not> is_space CHR ''-''" by (simp add: is_space_def)
    with tw True show ?thesis
      by (simp add: show_int_def scan_int_def skip_space_def Let_def show_nat_value(1))
  qed
qed

lemma scan_int_oct:
  assumes "rest = [] \<or> hd rest = CHR '' ''"
  shows "scan_int 8 (show_oct n @ rest) = Some (int n, rest)"
  using scan_int_digits [OF show_oct_value(3) show_oct_value(2) _ ] assms not_digit_blank show_oct_value(1)
  by fastforce

lemma scan_word_plain: "plain w \<Longrightarrow> scan_word (w @ CHR '' '' # s) = Some (w, CHR '' '' # s)"
  by (cases w) (auto simp: scan_word_def plain_def skip_space_def Let_def takeWhile_append takeWhile_eq_all_conv)

text \<open>
  The client reads back from the text of DETAILS exactly the numbers the storage server
  has put there, negative ones and the octal mode included, for a name without white space.
\<close>

theorem details_roundtrip:
  assumes "plain name" and "0 \<le> mode"
  shows "scan_details (details_text name (sz, mode, uid, gid, mtime)) = Some (name, sz, mode, uid, gid, mtime)"
  using assms scan_int_show [of "[]" mtime]
  by (simp add: scan_details_def details_text_def scan_word_plain scan_int_blank scan_int_show scan_int_oct)

theorem details_roundtrip_witness:
  "scan_details (details_text ''a.txt'' (12, 33188, 1000, - 1, 0)) = Some (''a.txt'', 12, 33188, 1000, - 1, 0)"
  by (rule details_roundtrip) (simp_all add: plain_def is_space_def)

section \<open>COPY\<close>

lemma send_all_run:
  "w_send_ok w = [] \<Longrightarrow> send_all s cs w = Done () (emit (map (Sent s) cs) w)"
proof (induction cs arbitrary: w)
  case Nil
  then show ?case by (simp add: io_simps)
next
  case (Cons c cs)
  then show ?case using Cons.IH [of "emit [Sent s c] w"] by (simp add: io_simps run_simps)
qed

lemma forward_loop_run:
  assumes "w_send_ok w = []" and "list_all (\<lambda>p. data_packet p \<and> p \<noteq> []) ps"
    and "w_in w s1 = map Some ps @ Some STOP_packet # q"
  shows "forward_loop s1 s2 w =
    Done () (emit (map (\<lambda>p. Sent s2 (buffer (CHUNK_SIZE + 1) p)) ps) (set_in s1 q w))"
  using assms
proof (induction ps arbitrary: w)
  case Nil
  have "STOP_packet \<noteq> []" by (metis length_buffer list.size(3) add_is_0 one_neq_zero)
  with Nil show ?case by (subst forward_loop.simps) (simp add: io_simps run_simps)
next
  case (Cons p ps)
  let ?w = "emit [Sent s2 (buffer (CHUNK_SIZE + 1) p)] (set_in s1 (map Some ps @ Some STOP_packet # q) w)"
  have "forward_loop s1 s2 w = forward_loop s1 s2 ?w"
    using Cons.prems by (subst forward_loop.simps) (simp add: io_simps run_simps)
  also have "\<dots> = Done () (emit (map (\<lambda>p. Sent s2 (buffer (CHUNK_SIZE + 1) p)) ps) (set_in s1 q ?w))"
    by (rule Cons.IH) (use Cons.prems in simp_all)
  finally show ?case by simp
qed

lemma cstr_append_NULs: "cstr (p @ replicate n NUL) = cstr p"
proof (cases "NUL \<in> set p")
  case True
  then show ?thesis by (auto simp: cstr_def takeWhile_append)
next
  case False
  then show ?thesis by (simp add: cstr_pad cstr_id)
qed

lemma forwarded_packet:
  assumes "data_packet p"
  shows "buffer_string (Suc CHUNK_SIZE) (buffer (Suc CHUNK_SIZE) p) = Inr (cstr p)"
proof -
  have len: "length p \<le> CHUNK_SIZE" using assms by (simp add: data_packet_def)
  then have "buffer (Suc CHUNK_SIZE) p = p @ replicate (Suc (CHUNK_SIZE - length p)) NUL"
    by (simp add: buffer_short Suc_diff_le del: replicate.simps)
  then have "NUL \<in> set (buffer (Suc CHUNK_SIZE) p)" "cstr (buffer (Suc CHUNK_SIZE) p) = cstr p"
    using cstr_append_NULs [of p "Suc (CHUNK_SIZE - length p)"] by simp_all
  then show ?thesis by (simp add: buffer_string_def)
qed

lemma stop_string [simp]: "buffer_string (Suc CHUNK_SIZE) (''STOP'' @ [NUL]) = Inr ''STOP''"
  by (simp add: buffer_string_def CHUNK_SIZE_def cstr_def NUL_def)

lemma stop_length [simp]: "length (''STOP'' @ [NUL]) \<le> Suc CHUNK_SIZE"
  by (simp add: CHUNK_SIZE_def)

lemma receive_loop_run:
  assumes "list_all data_packet ps"
    and "w_in w s = map (\<lambda>p. Some (buffer (CHUNK_SIZE + 1) p)) ps @ Some (''STOP'' @ [NUL]) # q"
    and "w_files w name = Some (File old)"
  shows "receive_loop s name w = Done () (set_file name (old @ concat (map cstr ps)) (set_in s q w))"
  using assms
proof (induction ps arbitrary: w old)
  case Nil
  let ?stop = "''STOP'' @ [NUL]"
  have "recv_or_exit s (Suc CHUNK_SIZE) w = Done ?stop (set_in s q w)"
    by (rule recv_or_exit_whole) (use Nil stop_length in auto)
  moreover have "received_string (Suc CHUNK_SIZE) ?stop (set_in s q w) = Done ''STOP'' (set_in s q w)"
    by (rule received_string_Inr) (rule stop_string)
  ultimately show ?case
    using Nil.prems(3) by (subst receive_loop.simps) (simp add: io_simps set_file_same)
next
  case (Cons p ps)
  let ?w = "set_file name (old @ cstr p)
    (set_in s (map (\<lambda>p. Some (buffer (CHUNK_SIZE + 1) p)) ps @ Some (''STOP'' @ [NUL]) # q) w)"
  have "receive_loop s name w = receive_loop s name ?w"
    using Cons.prems by (subst receive_loop.simps) (simp add: io_simps run_simps forwarded_packet)
  also have "\<dots> = Done () (set_file name ((old @ cstr p) @ concat (map cstr ps)) (set_in s q ?w))"
    by (rule Cons.IH) (use Cons.prems in simp_all)
  finally show ?case by simp
qed

section \<open>Registered files\<close>

lemma register_file_law:
  assumes "storage_ok w" and "plain name" and "length name \<le> 4090" and "ss_associated_files w < int MAX_ASSOCIATED_FILES"
  shows "\<exists>w'. register_file name w = Done () w' \<and> serves w' name (ss_associated_files w) \<and>
    has_sems (ss_associated_files w) 1 1 0 w' \<and> storage_ok w' \<and>
    registered w' = AList.update name (ss_associated_files w) (registered w) \<and>
    ss_associated_files w' = ss_associated_files w + 1 \<and> w_files w' = w_files w \<and>
    w_send_ok w' = w_send_ok w \<and> w_locked w' = w_locked w"
proof -
  let ?i = "ss_associated_files w"
  have i: "0 \<le> ?i" "?i < 2 ^ 31" using assms(1) by (simp_all add: storage_ok_def)
  obtain m where m: "set_value (ss_path_to_sem w) name ?i = Inr m" "plain_map m"
    "pm_entries m = AList.update name ?i (registered w)"
    by (rule set_value_plain [of "ss_path_to_sem w" name ?i])
       (use assms i in \<open>auto simp: storage_ok_def\<close>)
  let ?w = "w\<lparr>ss_path_to_sem := m, ss_semaphores := (ss_semaphores w)(?i \<mapsto> 1),
       ss_semlocks := (ss_semlocks w)(?i \<mapsto> 1), ss_reader_count := (ss_reader_count w)(?i := 0),
       ss_associated_files := ?i + 1\<rparr>"
  have "register_file name w = Done () ?w" using m(1) by (simp add: register_file_def io_simps)
  moreover have "serves ?w name ?i"
    using m(2,3) assms(2,3) i by (simp add: serves_def plain_map_def plain_def update_conv)
  moreover have "has_sems ?i 1 1 0 ?w" using i assms(4) by (simp add: has_sems_def)
  moreover have "storage_ok ?w" using m(2) i assms(4) by (simp add: storage_ok_def MAX_ASSOCIATED_FILES_def)
  ultimately show ?thesis using m(3) by (intro exI [of _ ?w]) simp
qed

text \<open>
  Claim C38. A file that is chosen when the storage server starts is ready for transfers: it is
  registered under the next index, and both semaphores of that index have the value 1.
\<close>

theorem register_file_ready:
  assumes "storage_ok w" and "plain name" and "length name \<le> 4090" and "ss_associated_files w < int MAX_ASSOCIATED_FILES"
  shows "\<exists>w'. register_file name w = Done () w' \<and> serves w' name (ss_associated_files w) \<and>
    has_sems (ss_associated_files w) 1 1 0 w' \<and> storage_ok w' \<and>
    registered w' = AList.update name (ss_associated_files w) (registered w)"
  using register_file_law [OF assms] by blast

theorem register_file_ready_witness:
  "\<exists>w. register_file ''/a.txt'' fresh_storage = Done () w \<and> registered w = [(''/a.txt'', 0)] \<and> has_sems 0 1 1 0 w"
  using register_file_ready [OF fresh_storage(1), of "''/a.txt''"]
  by (simp add: plain_def is_space_def fresh_storage(2) MAX_ASSOCIATED_FILES_def) (auto simp: fresh_storage_def)

section \<open>Witnesses\<close>

text \<open>A storage server with one file, registered by the code, and a client with a local file.\<close>

lemma serving_storage:
  "\<exists>w :: storage. serves w ''/a.txt'' 0 \<and> has_sems 0 1 1 0 w \<and> w_send_ok w = [] \<and> \<not> w_locked w ''./a.txt'' \<and>
     w_files w ''./a.txt'' = Some (File ''hello'')"
proof -
  let ?w = "fresh_storage\<lparr>w_files := [''./a.txt'' \<mapsto> File ''hello'']\<rparr>"
  have "storage_ok ?w" using fresh_storage(1) by (simp add: storage_ok_def)
  from register_file_law [OF this, of "''/a.txt''"] show ?thesis
    by (fastforce simp: plain_def is_space_def MAX_ASSOCIATED_FILES_def fresh_storage_def)
qed

definition example_client :: world where
  "example_client =
     \<lparr>w_in = (\<lambda>_. []), w_send_ok = [], w_connect = [], w_next = 3, w_stdin = [''./b.txt'' @ [CHR 0x0A]],
      w_files = [''./b.txt'' \<mapsto> File ''bye''], w_locked = (\<lambda>_. False), w_events = []\<rparr>"

lemma chunks_short: "s \<noteq> [] \<Longrightarrow> length s \<le> CHUNK_SIZE \<Longrightarrow> chunks s = [s]"
  by (subst chunks.simps) (simp add: chunks.simps)

lemma transferable_examples: "transferable ''hello''" "transferable ''bye''"
  using chunks_short [of "''hello''"] chunks_short [of "''bye''"]
  by (simp_all add: transferable_def CHUNK_SIZE_def cstr_def NUL_def strcaseeq_def to_lower_def)

theorem read_end_to_end_witness:
  "\<exists>ws ws' wc'. talk 4 (readServerSide [''READ'', ''/a.txt''] 2 4) (ws :: storage) 5 (readClientSide 5) example_client 1 ws' 1 wc' \<and>
     concat (prints (new_events example_client wc')) = ''hello''"
proof -
  obtain w :: storage where w: "serves w ''/a.txt'' 0" "has_sems 0 1 1 0 w" "w_send_ok w = []"
    "w_files w ''./a.txt'' = Some (File ''hello'')" using serving_storage by blast
  have "w_send_ok example_client = []" by (simp add: example_client_def)
  from read_end_to_end [OF w(3) this w(1,2) _ transferable_examples(1), of 4 "''READ''" 5] w(4)
  show ?thesis by (simp add: NUL_def) blast
qed


theorem write_truncates_before_waiting_witness:
  "\<exists>w w' :: storage. w_files w ''./a.txt'' = Some (File ''hello'') \<and>
     write_to_file 4 ''/a.txt'' 0 w = Blocked w' \<and> w_files w' ''./a.txt'' = Some (File [])"
proof -
  obtain w :: storage where w: "has_sems 0 1 1 0 w" "\<not> w_locked w ''./a.txt''"
    "w_files w ''./a.txt'' = Some (File ''hello'')" using serving_storage by blast
  have "has_sems 0 0 1 1 (put_sems 0 0 1 1 w)" by (simp add: MAX_ASSOCIATED_FILES_def)
  from write_truncates_before_waiting [OF this, of "''/a.txt''" 4] w(2,3)
  obtain w' where "write_to_file 4 ''/a.txt'' 0 (put_sems 0 0 1 1 w) = Blocked w'"
    "w_files w' ''./a.txt'' = Some (File [])" by auto
  with w(3) show ?thesis by (intro exI [of _ "put_sems 0 0 1 1 w"] exI [of _ w']) simp
qed

theorem created_file_unusable_witness:
  "\<exists>w :: storage. runCreate (\<lambda>cmd fs. Some (fs, True)) [''CREATE'', ''/d'', ''f.c''] 3 fresh_storage = Done 1 w \<and>
     (\<exists>v. readServerSide [''READ'', ''/d/f.c''] 2 4 w = Faulted Uninitialised v)"
  using created_file_unusable [OF fresh_storage(1), of "''/d''" "''f.c''" "\<lambda>cmd fs. Some (fs, True)"
      "w_files fresh_storage" "''CREATE''" "''READ''" 4]
  by (simp add: plain_def is_space_def fresh_storage_def MAX_ASSOCIATED_FILES_def) auto

end
