(* ===== verification/Copy.thy ===== *)
theory Copy
  imports Transfers
begin

text \<open>
  COPY: the sending storage server, the naming server in the middle and the receiving storage
  server, each run on what the others send.
\<close>

section \<open>The three runs\<close>

abbreviation final_ack :: string where
  "final_ack \<equiv> buffer MAX_BUFFER_SIZE ''ACK''"

lemma final_ack_string [simp]: "buffer_string MAX_BUFFER_SIZE (buffer MAX_BUFFER_SIZE ''ACK'') = Inr ''ACK''"
  by (rule buffer_string_buffer) (simp_all add: NUL_def MAX_BUFFER_SIZE_def)

lemma new_events_eq: "w_events v = w_events w @ es \<Longrightarrow> new_events w v = es"
  by (simp add: new_events_def)

lemma runSend_run:
  assumes "w_send_ok w = []" and "w_files w (''.'' @ path) = Some (File content)"
    and "basename (''.'' @ path) = (name, ''.'' @ path)"
  shows "runSend exec [cmd, path] 2 s w =
    Done 1 (emit (Sent s name # map (Sent s) (chunks content) @ [Sent s STOP_packet]) w)"
  using assms by (simp add: runSend_def send_file_def io_simps run_simps send_all_run Let_def)

lemma facilitateCopy_run:
  assumes ok: "w_send_ok w = []" and ps: "list_all (\<lambda>p. data_packet p \<and> p \<noteq> []) ps"
    and name: "length name \<le> CHUNK_SIZE" and s: "s1 \<noteq> s2"
    and in1: "w_in w s1 = Some name # map Some ps @ [Some STOP_packet, Some final_ack]"
    and in2: "w_in w s2 = [Some (int_bytes 0), Some final_ack]"
  shows "facilitateCopy s1 s2 w =
    Done 1 (emit (Sent s2 (buffer (CHUNK_SIZE + 1) name) #
      map (\<lambda>p. Sent s2 (buffer (CHUNK_SIZE + 1) p)) ps @
      [Sent s2 (''STOP'' @ [NUL]), Closed s1, Closed s2]) (set_in s2 [] (set_in s1 [] w)))"
proof -
  let ?w = "emit [Sent s2 (buffer (CHUNK_SIZE + 1) name)]
    (set_in s1 (map Some ps @ [Some STOP_packet, Some final_ack]) w)"
  have "forward_loop s1 s2 ?w =
      Done () (emit (map (\<lambda>p. Sent s2 (buffer (CHUNK_SIZE + 1) p)) ps) (set_in s1 [Some final_ack] ?w))"
    by (rule forward_loop_run) (use ok ps in simp_all)
  moreover have "int_received 0 (int_bytes 0) = 0" by (rule int_received_whole) simp_all
  moreover have "set_in s1 [] (set_in s2 q v) = set_in s2 q (set_in s1 [] v)" for q and v :: "'a world_scheme"
    using s by (simp add: set_in_def fun_upd_twist)
  ultimately show ?thesis
    using ok name s in1 in2 by (simp add: facilitateCopy_def io_simps run_simps Let_def)
qed

lemma runReceive_run:
  assumes ok: "w_send_ok w = []" and ps: "list_all data_packet ps"
    and name: "7 \<le> length name" "length name \<le> CHUNK_SIZE" "NUL \<notin> set name" "drop (length name - 7) name \<noteq> ''.tar.gz''"
    and free: "\<not> w_locked w (''.'' @ dir @ ''/'' @ name)" "w_files w (''.'' @ dir @ ''/'' @ name) \<noteq> Some Dir"
    and input: "w_in w s = Some (buffer (CHUNK_SIZE + 1) name) #
      map (\<lambda>p. Some (buffer (CHUNK_SIZE + 1) p)) ps @ [Some (''STOP'' @ [NUL])]"
  shows "runReceive exec [cmd, dir] 2 s w =
    Done 1 (set_file (''.'' @ dir @ ''/'' @ name) (concat (map cstr ps)) (emit [Sent s (int_bytes 0)] (set_in s [] w)))"
proof -
  let ?f = "''.'' @ dir @ ''/'' @ name" and ?stop = "Some (''STOP'' @ [NUL])"
  let ?q = "map (\<lambda>p. Some (buffer (CHUNK_SIZE + 1) p)) ps @ [?stop]"
  have r: "recv_or_exit s (CHUNK_SIZE + 1) w = Done (buffer (CHUNK_SIZE + 1) name) (set_in s ?q w)"
    by (rule recv_or_exit_whole) (use input in simp_all)
  have n: "received_string (CHUNK_SIZE + 1) (buffer (CHUNK_SIZE + 1) name) v = Done name v" for v :: "'a storage_scheme"
    by (rule received_string_Inr, rule buffer_string_buffer) (use name in simp_all)
  have o': "open_write ?f (set_in s ?q w) = Done True (set_file ?f [] (set_in s ?q w))"
    by (rule open_write_run) (use free in simp_all)
  have l: "receive_loop s ?f (set_file ?f [] (set_in s ?q w)) =
      Done () (set_file ?f (concat (map cstr ps)) (set_in s [] w))"
    using receive_loop_run [OF ps, of "set_file ?f [] (set_in s ?q w)" s "[]" ?f "[]"] by simp
  have z: "send_or_exit s (int_bytes 0) (set_file ?f (concat (map cstr ps)) (set_in s [] w)) =
      Done () (set_file ?f (concat (map cstr ps)) (emit [Sent s (int_bytes 0)] (set_in s [] w)))"
    using send_or_exit_succeeds [of "set_file ?f (concat (map cstr ps)) (set_in s [] w)"] ok by simp
  have "\<not> length name < 7" using name(1) by simp
  then show ?thesis
    using name(4) r n o' l z
    by (simp add: runReceive_def receive_file_def io_simps Let_def)
qed

section \<open>Property\<close>

text \<open>
  COPY of a file end to end: the three programs, each receiving what the others send (and
  the naming server the final ACK that both storage servers send for a command that returned 1),
  finish with success, and the receiving server's file is the sending server's, of each chunk the
  bytes before the first zero.
\<close>

theorem copy_end_to_end:
  assumes "w_send_ok w1 = []" and "w_send_ok wn = []" and "w_send_ok w2 = []" and "s1 \<noteq> s2"
    and "w_files w1 (''.'' @ path) = Some (File content)" and "basename (''.'' @ path) = (name, ''.'' @ path)"
    and "transferable content"
    and "7 \<le> length name" and "length name \<le> CHUNK_SIZE" and "NUL \<notin> set name"
    and "drop (length name - 7) name \<noteq> ''.tar.gz''"
    and "\<not> w_locked w2 (''.'' @ dir @ ''/'' @ name)" and "w_files w2 (''.'' @ dir @ ''/'' @ name) \<noteq> Some Dir"
  shows "\<exists>v1 vn v2.
      runSend exec [cmd1, path] 2 a w1 = Done 1 v1 \<and>
      facilitateCopy s1 s2 (feed s2 (sends b (new_events w2 v2) @ [final_ack])
        (feed s1 (sends a (new_events w1 v1) @ [final_ack]) wn)) = Done 1 vn \<and>
      runReceive exec [cmd2, dir] 2 b (feed b (sends s2 (new_events wn vn)) w2) = Done 1 v2 \<and>
      w_files v2 (''.'' @ dir @ ''/'' @ name) = Some (File (carried content)) \<and>
      (NUL \<notin> set content \<longrightarrow> w_files v2 (''.'' @ dir @ ''/'' @ name) = Some (File content))"
proof -
  let ?cs = "chunks content" and ?f = "''.'' @ dir @ ''/'' @ name"
  have packets: "list_all data_packet ?cs" using assms(7) by (rule transferable_packets)
  then have packets': "list_all (\<lambda>p. data_packet p \<and> p \<noteq> []) ?cs"
    using chunks_size by (fastforce simp: list_all_iff)
  let ?e1 = "Sent a name # map (Sent a) ?cs @ [Sent a STOP_packet]"
  let ?en = "Sent s2 (buffer (CHUNK_SIZE + 1) name) # map (\<lambda>p. Sent s2 (buffer (CHUNK_SIZE + 1) p)) ?cs @
      [Sent s2 (''STOP'' @ [NUL]), Closed s1, Closed s2]"
  let ?v1 = "emit ?e1 w1"
  let ?v2 = "set_file ?f (concat (map cstr ?cs)) (emit [Sent b (int_bytes 0)] (set_in b [] w2))"
  let ?in1 = "Some name # map Some ?cs @ [Some STOP_packet, Some final_ack]"
  let ?in2 = "[Some (int_bytes 0), Some final_ack]"
  let ?wn = "set_in s2 ?in2 (set_in s1 ?in1 wn)"
  let ?vn = "emit ?en (set_in s2 [] (set_in s1 [] ?wn))"
  show ?thesis
  proof (intro exI conjI)
    show "runSend exec [cmd1, path] 2 a w1 = Done 1 ?v1" by (rule runSend_run) (use assms in simp_all)
    have "facilitateCopy s1 s2 ?wn = Done 1 ?vn"
      by (rule facilitateCopy_run) (use assms packets' in simp_all)
    then show "facilitateCopy s1 s2 (feed s2 (sends b (new_events w2 ?v2) @ [final_ack])
        (feed s1 (sends a (new_events w1 ?v1) @ [final_ack]) wn)) = Done 1 ?vn"
      by (simp add: feed_set_in)
    have ev: "new_events wn ?vn = ?en" by (rule new_events_eq) simp
    have fwd: "sends s2 (map (\<lambda>p. Sent s2 (buffer (CHUNK_SIZE + 1) p)) ps) = map (buffer (CHUNK_SIZE + 1)) ps" for ps
      by (induction ps) simp_all
    let ?w2 = "set_in b (map Some (buffer (CHUNK_SIZE + 1) name # map (buffer (CHUNK_SIZE + 1)) ?cs @ [''STOP'' @ [NUL]])) w2"
    have "runReceive exec [cmd2, dir] 2 b ?w2 =
        Done 1 (set_file ?f (concat (map cstr ?cs)) (emit [Sent b (int_bytes 0)] (set_in b [] ?w2)))"
      by (rule runReceive_run) (use assms packets in simp_all)
    then show "runReceive exec [cmd2, dir] 2 b (feed b (sends s2 (new_events wn ?vn)) w2) = Done 1 ?v2"
      unfolding ev feed_set_in using fwd by simp
    show "w_files ?v2 ?f = Some (File (carried content))" by (simp add: carried_def)
    show "NUL \<notin> set content \<longrightarrow> w_files ?v2 ?f = Some (File content)"
      using carried_text by (simp add: carried_def)
  qed
qed



text \<open>The witness: two servers with one small file.\<close>

definition copy_source :: storage where
  "copy_source = fresh_storage\<lparr>w_files := [''./notes.txt'' \<mapsto> File ''hello'']\<rparr>"

theorem copy_end_to_end_witness:
  "\<exists>v1 vn v2.
     runSend (\<lambda>cmd fs. None) [''SEND'', ''/notes.txt''] 2 4 copy_source = Done 1 v1 \<and>
     facilitateCopy 5 6 (feed 6 (sends 4 (new_events fresh_storage v2) @ [final_ack])
       (feed 5 (sends 4 (new_events copy_source v1) @ [final_ack]) fresh_storage)) = Done 1 vn \<and>
     runReceive (\<lambda>cmd fs. None) [''RECEIVE'', ''/d''] 2 4 (feed 4 (sends 6 (new_events fresh_storage vn)) fresh_storage) = Done 1 v2 \<and>
     w_files v2 ''./d/notes.txt'' = Some (File ''hello'')"
  using copy_end_to_end [of copy_source fresh_storage fresh_storage 5 6 "''/notes.txt''" "''hello''" "''notes.txt''"
      "''/d''" "\<lambda>cmd fs. None" "''SEND''" 4 4 "''RECEIVE''"] transferable_examples(1)
  by (simp add: copy_source_def fresh_storage_def basename_def CHUNK_SIZE_def NUL_def) blast

end
