(* ===== verification/Io_Hoare.thy ===== *)
theory Io_Hoare
  imports Io
begin

text \<open>
  Reasoning about programs without running them: what holds of the state whenever a program
  returns, and of the state in which it waits. Nothing is said of runs that exit or fault.
\<close>

section \<open>Outcomes and triples\<close>

fun post :: "('a \<Rightarrow> 's \<Rightarrow> bool) \<Rightarrow> ('s \<Rightarrow> bool) \<Rightarrow> ('s, 'a) outcome \<Rightarrow> bool" where
  "post Q B (Done x w) \<longleftrightarrow> Q x w"
| "post Q B (Blocked w) \<longleftrightarrow> B w"
| "post Q B (Exited w) \<longleftrightarrow> True"
| "post Q B (Faulted e w) \<longleftrightarrow> True"

definition triple ::
  "('s \<Rightarrow> bool) \<Rightarrow> ('s, 'a) io \<Rightarrow> ('a \<Rightarrow> 's \<Rightarrow> bool) \<Rightarrow> ('s \<Rightarrow> bool) \<Rightarrow> bool" where
  "triple P m Q B \<longleftrightarrow> (\<forall>w. P w \<longrightarrow> post Q B (m w))"

text \<open>Programs that keep an invariant.\<close>

definition keeps :: "('s \<Rightarrow> bool) \<Rightarrow> ('s \<Rightarrow> bool) \<Rightarrow> ('s, 'a) io \<Rightarrow> bool" where
  "keeps I B m \<longleftrightarrow> triple I m (\<lambda>_. I) B"

lemma tripleI: "(\<And>w. P w \<Longrightarrow> post Q B (m w)) \<Longrightarrow> triple P m Q B"
  by (simp add: triple_def)

lemma tripleD: "triple P m Q B \<Longrightarrow> P w \<Longrightarrow> post Q B (m w)"
  by (simp add: triple_def)

lemma triple_Done: "triple P m Q B \<Longrightarrow> P w \<Longrightarrow> m w = Done x w' \<Longrightarrow> Q x w'"
  by (drule (1) tripleD) simp

lemma triple_Blocked: "triple P m Q B \<Longrightarrow> P w \<Longrightarrow> m w = Blocked w' \<Longrightarrow> B w'"
  by (drule (1) tripleD) simp

lemma keepsI: "(\<And>w. I w \<Longrightarrow> post (\<lambda>_. I) B (m w)) \<Longrightarrow> keeps I B m"
  by (simp add: keeps_def triple_def)

lemma keepsD: "keeps I B m \<Longrightarrow> I w \<Longrightarrow> post (\<lambda>_. I) B (m w)"
  by (simp add: keeps_def triple_def)

lemma post_bind:
  "post R B (m w) \<Longrightarrow> (\<And>x v. m w = Done x v \<Longrightarrow> R x v \<Longrightarrow> post Q B (f x v)) \<Longrightarrow> post Q B (io_bind m f w)"
  by (cases "m w") (simp_all add: io_bind_def)

lemma post_mono: "post R C out \<Longrightarrow> (\<And>x w. R x w \<Longrightarrow> Q x w) \<Longrightarrow> (\<And>w. C w \<Longrightarrow> B w) \<Longrightarrow> post Q B out"
  by (cases out) auto

lemma io_bind_return [simp]: "io_bind m io_return = m"
  by (rule ext) (auto simp: io_bind_def io_return_def split: outcome.split)

named_theorems keeps_intros "rules for programs that keep an invariant"

lemma triple_bind:
  "triple P m R B \<Longrightarrow> (\<And>x. triple (R x) (f x) Q B) \<Longrightarrow> triple P (io_bind m f) Q B"
  by (auto simp: triple_def intro: post_bind)

lemma triple_keeps: "keeps I B m \<Longrightarrow> triple (\<lambda>w. I w) m (\<lambda>_. I) B"
  by (simp add: keeps_def)

text \<open>A value that is computed from the state or by a pure function, with what is known of it.\<close>

lemma keeps_bind_known:
  "triple I m (\<lambda>x w. I w \<and> K x) B \<Longrightarrow> (\<And>x. K x \<Longrightarrow> keeps I B (f x)) \<Longrightarrow> keeps I B (io_bind m f)"
  unfolding keeps_def by (erule triple_bind) (auto simp: triple_def)

lemma keeps_bind [keeps_intros]:
  "keeps I B m \<Longrightarrow> (\<And>x. keeps I B (f x)) \<Longrightarrow> keeps I B (io_bind m f)"
  unfolding keeps_def by (rule triple_bind)

lemma keeps_return [keeps_intros]: "keeps I B (io_return x)"
  by (simp add: keeps_def triple_def io_simps)

lemma keeps_exit [keeps_intros]: "keeps I B io_exit"
  by (simp add: keeps_def triple_def io_simps)

lemma keeps_fault [keeps_intros]: "keeps I B (io_fault e)"
  by (simp add: keeps_def triple_def io_simps)

lemma keeps_lift [keeps_intros]: "keeps I B (io_lift r)"
  by (cases r) (simp_all add: keeps_def triple_def io_simps)

lemma keeps_get [keeps_intros]: "keeps I B (io_get f)"
  by (simp add: keeps_def triple_def io_simps)

lemma keeps_update: "(\<And>w. I w \<Longrightarrow> I (f w)) \<Longrightarrow> keeps I B (io_update f)"
  by (simp add: keeps_def triple_def io_simps)

lemma keeps_if [keeps_intros]: "keeps I B m \<Longrightarrow> keeps I B m' \<Longrightarrow> keeps I B (if b then m else m')"
  by simp

lemma keeps_option [keeps_intros]:
  "keeps I B m \<Longrightarrow> (\<And>x. keeps I B (f x)) \<Longrightarrow> keeps I B (case r of None \<Rightarrow> m | Some x \<Rightarrow> f x)"
  by (cases r) simp_all

lemma keeps_prod [keeps_intros]:
  "(\<And>a b. keeps I B (f a b)) \<Longrightarrow> keeps I B (case p of (a, b) \<Rightarrow> f a b)"
  by (cases p) simp

lemma keeps_Let [keeps_intros]: "(\<And>x. keeps I B (f x)) \<Longrightarrow> keeps I B (let x = v in f x)"
  by simp

section \<open>System calls\<close>

text \<open>
  An invariant of a program's own state says nothing of the outside world. What the program may be
  waiting for is the condition on \<open>B\<close>.
\<close>

definition internal :: "('z world_scheme \<Rightarrow> bool) \<Rightarrow> bool" where
  "internal I \<longleftrightarrow> (\<forall>w w'. world.more w = world.more w' \<longrightarrow> I w = I w')"

definition waiting :: "nat \<Rightarrow> ('z world_scheme \<Rightarrow> bool) \<Rightarrow> bool" where
  "waiting s B \<longleftrightarrow> (\<forall>w. w_in w s = [] \<longrightarrow> B w)"

lemma internalD: "internal I \<Longrightarrow> I w \<Longrightarrow> world.more w' = world.more w \<Longrightarrow> I w'"
  unfolding internal_def by metis

lemma waiting_True [simp]: "waiting s (\<lambda>_. True)"
  by (simp add: waiting_def)

lemma waiting_self [simp]: "waiting s (\<lambda>w. w_in w s = [])"
  by (simp add: waiting_def)

lemma keeps_internal:
  assumes "internal I" and "\<And>w. post (\<lambda>_ w'. world.more w' = world.more w) B (m w)"
  shows "keeps I B m"
proof (rule keepsI)
  fix w assume "I w"
  with assms(2) [of w] show "post (\<lambda>_. I) B (m w)"
    by (cases "m w") (auto intro: internalD [OF assms(1)])
qed

lemma keeps_recv [keeps_intros]: "internal I \<Longrightarrow> waiting s B \<Longrightarrow> keeps I B (recv s n)"
  by (erule keeps_internal) (auto simp: recv_def waiting_def split: list.splits option.splits)

lemma keeps_send [keeps_intros]: "internal I \<Longrightarrow> keeps I B (send s bs)"
  by (erule keeps_internal) (simp add: send_def happens_def Let_def split: list.splits)

lemma keeps_close_socket [keeps_intros]: "internal I \<Longrightarrow> keeps I B (close_socket s)"
  by (erule keeps_internal) (simp add: close_socket_def happens_def io_simps)

lemma keeps_print_line [keeps_intros]: "internal I \<Longrightarrow> keeps I B (print_line s)"
  by (erule keeps_internal) (simp add: print_line_def happens_def io_simps)

lemma keeps_open_socket [keeps_intros]: "internal I \<Longrightarrow> keeps I B (open_socket ip port)"
  by (erule keeps_internal) (simp add: open_socket_def happens_def Let_def split: list.splits option.splits)

lemma keeps_received_string [keeps_intros]: "keeps I B (received_string n bs)"
  by (simp add: received_string_def keeps_intros)

lemma keeps_send_or_exit [keeps_intros]: "internal I \<Longrightarrow> keeps I B (send_or_exit s bs)"
  by (simp add: send_or_exit_def keeps_intros)

lemma keeps_recv_or_exit [keeps_intros]: "internal I \<Longrightarrow> waiting s B \<Longrightarrow> keeps I B (recv_or_exit s n)"
  by (simp add: recv_or_exit_def keeps_intros)

lemma keeps_open_read [keeps_intros]: "keeps I B (open_read name)"
  by (simp add: keeps_def triple_def open_read_def)

lemma keeps_open_write [keeps_intros]: "internal I \<Longrightarrow> keeps I B (open_write name)"
  by (erule keeps_internal) (simp add: open_write_def)

lemma keeps_append_file [keeps_intros]: "internal I \<Longrightarrow> keeps I B (append_file name bs)"
  by (erule keeps_internal) (simp add: append_file_def)

text \<open>One step of a program in a given state, for the inductions over loops.\<close>

lemma post_step:
  "keeps I B m \<Longrightarrow> I w \<Longrightarrow> (\<And>x v. m w = Done x v \<Longrightarrow> I v \<Longrightarrow> post Q B (f x v)) \<Longrightarrow> post Q B (io_bind m f w)"
  by (rule post_bind [where R = "\<lambda>_. I"]) (auto dest: keepsD)

lemma post_if_value: "(b \<Longrightarrow> post Q B out) \<Longrightarrow> (\<not> b \<Longrightarrow> post Q B out') \<Longrightarrow> post Q B (if b then out else out')"
  by simp

end
