(* ===== verification/Naming_Invariant.thy ===== *)
theory Naming_Invariant
  imports Naming_Server Io_Hoare
begin

text \<open>
  What the naming server keeps true of its tables, whatever clients and storage servers send: every
  path leads to a storage server that is registered, and no two storage servers use the same port.
\<close>

section \<open>Path maps with arbitrary paths\<close>

text \<open>
  A path that contains white space is scanned back only up to it. A path of nothing but white space
  cannot be scanned back at all.
\<close>

definition scan_map :: "hashmap \<Rightarrow> bool" where
  "scan_map m \<longleftrightarrow> pm_inv m \<and> list_all (\<lambda>(p, v). scan_s p \<noteq> None) (pm_entries m)"

lemma scan_s_blank: "scan_s (CHR '' '' # s) = scan_s s"
  by (simp add: scan_s_def skip_space_def)

lemma scan_format_key_word: "format_key p = Inr t \<Longrightarrow> scan_dds t = scan_s p"
  using scan_d_show_int [of "'' '' @ show_int j @ '' '' @ p" i for i j] scan_d_show_int [of "'' '' @ p" j for j]
  by (auto simp: format_key_def sprintf_key_Inr scan_dds_def scan_s_blank)

lemma scan_s_slash: "CHR ''/'' \<in> set p \<Longrightarrow> scan_s p \<noteq> None"
proof -
  assume "CHR ''/'' \<in> set p"
  moreover have "\<not> is_space CHR ''/''" by (simp add: is_space_def)
  ultimately have ne: "dropWhile is_space p \<noteq> []" by (auto simp: dropWhile_eq_Nil_conv)
  then have "\<not> is_space (hd (dropWhile is_space p))" by (rule hd_dropWhile)
  with ne show ?thesis by (cases "dropWhile is_space p") (simp_all add: scan_s_def skip_space_def Let_def)
qed

definition scan_entry :: "entry \<Rightarrow> bool" where
  "scan_entry e \<longleftrightarrow> path_entry_ok e \<and> scan_s (fst (path_entry e)) \<noteq> None"

lemma scan_map_entries: "scan_map m \<longleftrightarrow> hm_inv m \<and> list_all scan_entry (hm_entries m)"
  by (auto simp: scan_map_def pm_inv_def scan_entry_def pm_entries_def list_all_iff case_prod_unfold)

lemma scan_entry_scan: "scan_entry (k, n, v) \<Longrightarrow> scan_dds k = scan_s (key_path k) \<and> scan_s (key_path k) \<noteq> None \<and> n \<le> length k"
  using scan_format_key_word by (simp add: scan_entry_def)

lemma remove_entry_any:
  assumes "scan_map m"
  shows "\<exists>m'. remove_entry m path = Inr m' \<and> scan_map m' \<and>
    pm_entries m' = filter (\<lambda>(p, v). \<not> at_or_below path (the (scan_s p))) (pm_entries m)"
proof -
  let ?P = "\<lambda>k. at_or_below path (the (scan_s (key_path k)))"
  have inv: "hm_inv m" "list_all scan_entry (hm_entries m)"
    using assms by (simp_all add: scan_map_entries)
  have c: "remove_entry_cb path k n v (m, Inr ()) =
      (if ?P k then (the (hashmap_remove m k n), Inr ()) else (m, Inr ()))"
    if "hm_inv m" "scan_entry (k, n, v)" for k n v m
    using scan_entry_scan [OF that(2)] hm.del_law [OF that(1), of n k]
    by (auto simp: remove_entry_cb_def)
  obtain m' where m': "hashmap_iterate (remove_entry_cb path) m (Inr ()) = Some (m', Inr ())"
    "hm_inv m'" "hm_entries m' = filter (\<lambda>e. \<not> ?P (fst e)) (hm_entries m)"
    using iterate_remove [of scan_entry "remove_entry_cb path" "Inr ()" ?P, OF c inv] by metis
  have "fst (path_entry e) = key_path (fst e)" for e by (cases e) simp
  then have "pm_entries m' = filter (\<lambda>(p, v). \<not> at_or_below path (the (scan_s p))) (pm_entries m)"
    unfolding pm_entries_def m'(3) filter_map by (simp add: comp_def case_prod_unfold)
  moreover have "scan_map m'" using m' inv by (auto simp: scan_map_entries list_all_iff)
  ultimately show ?thesis using m'(1) by (simp add: remove_entry_def)
qed

text \<open>Printing the map returns only if every path can be scanned back.\<close>

lemma print_map_scans:
  assumes "pm_inv m" and "print_map m = Inr out"
  shows "scan_map m"
proof -
  have inv: "hm_inv m" "list_all path_entry_ok (hm_entries m)" using assms(1) by (simp_all add: pm_inv_def)
  have step: "fst (print_map_cb k n v s) = fst s" for k n v s by (simp add: print_map_cb_def)
  have fault: "fold (\<lambda>(k, n, v) s. print_map_cb k n v s) es (m, Inl f) = (m, Inl f)" for f es
    by (induction es) (auto simp: print_map_cb_def)
  have "list_all scan_entry es"
    if "list_all path_entry_ok es" "fold (\<lambda>(k, n, v) s. print_map_cb k n v s) es (m, Inr o1) = (m, Inr o2)"
    for es o1 o2
    using that
  proof (induction es arbitrary: o1)
    case (Cons e es)
    obtain k n v where e: "e = (k, n, v)" by (cases e)
    have scan: "scan_dds k = scan_s (key_path k)" using Cons.prems(1) e scan_format_key_word by simp
    show ?case
    proof (cases "scan_dds k")
      case None
      then show ?thesis using Cons.prems(2) fault by (simp add: e print_map_cb_def)
    next
      case (Some p)
      then have "list_all scan_entry es"
        using Cons.IH [of "o1 @ [(p, uintptr_to_int v)]"] Cons.prems by (simp add: e print_map_cb_def)
      moreover have "scan_entry e" using Some scan Cons.prems(1) by (simp add: e scan_entry_def)
      ultimately show ?thesis by simp
    qed
  qed simp
  moreover have "fold (\<lambda>(k, n, v) s. print_map_cb k n v s) (hm_entries m) (m, Inr []) = (m, Inr out)"
  proof -
    obtain m' r where r: "fold (\<lambda>(k, n, v) s. print_map_cb k n v s) (hm_entries m) (m, Inr []) = (m', r)" by fastforce
    have "fst (fold (\<lambda>(k, n, v) s. print_map_cb k n v s) es s) = fst s" for es s
      by (induction es arbitrary: s) (auto simp: step)
    from this [of "hm_entries m" "(m, Inr [])"] r have "m' = m" by simp
    with r hashmap_iterate_law [OF inv(1) step] assms(2) show ?thesis by (simp add: print_map_def)
  qed
  ultimately show ?thesis using inv by (simp add: scan_map_entries)
qed

lemma set_value_format: "set_value m p v = Inr m' \<Longrightarrow> \<exists>t. format_key p = Inr t"
  by (cases "format_key p") (auto simp: set_value_def)

lemma set_value_any:
  assumes "pm_inv m" and "set_value m p v = Inr m'" and "- (2 ^ 31) \<le> v" and "v < 2 ^ 31"
  shows "pm_inv m' \<and> pm_entries m' = AList.update p v (pm_entries m)"
proof -
  obtain t where "format_key p = Inr t" using set_value_format [OF assms(2)] by blast
  from set_value_law [OF assms(1) this, of v] assms(2) uintptr_roundtrip [OF assms(3,4)] show ?thesis by auto
qed

lemma get_value_any:
  assumes "pm_inv m" and "get_value m p = Inr v"
  shows "v = (case map_of (pm_entries m) p of None \<Rightarrow> - 1 | Some v \<Rightarrow> v)"
proof -
  obtain t where "format_key p = Inr t" using assms(2) by (cases "format_key p") (auto simp: get_value_def)
  from get_value_law [OF assms(1) this] assms(2) show ?thesis by simp
qed

lemma update_values: "set (AList.update p v xs) \<subseteq> insert (p, v) (set xs)"
  by (induction xs) auto

section \<open>The tables\<close>

text \<open>The numbers a path may have when \<open>n\<close> storage servers are registered; -1 reads as absent.\<close>

definition paths_ok :: "nat \<Rightarrow> hashmap \<Rightarrow> bool" where
  "paths_ok n m \<longleftrightarrow> scan_map m \<and> (\<forall>(p, v)\<in>set (pm_entries m). - 1 \<le> v \<and> v < int n)"

lemma paths_ok_create: "paths_ok 0 hashmap_create"
  using entries_create by (simp add: paths_ok_def scan_map_def)

lemma paths_ok_mono: "paths_ok n m \<Longrightarrow> n \<le> k \<Longrightarrow> paths_ok k m"
  by (force simp: paths_ok_def)

lemma paths_ok_get:
  assumes "paths_ok n m" and "get_value m p = Inr v"
  shows "- 1 \<le> v \<and> v < int n \<or> v = - 1"
proof -
  have "v = (case map_of (pm_entries m) p of None \<Rightarrow> - 1 | Some v \<Rightarrow> v)"
    using get_value_any assms by (simp add: paths_ok_def scan_map_def)
  with assms(1) show ?thesis by (auto simp: paths_ok_def split: option.splits dest: map_of_SomeD)
qed

text \<open>In between the paths need not be scannable; printing the map tells.\<close>

definition values_ok :: "nat \<Rightarrow> hashmap \<Rightarrow> bool" where
  "values_ok n m \<longleftrightarrow> pm_inv m \<and> (\<forall>(p, v)\<in>set (pm_entries m). - 1 \<le> v \<and> v < int n)"

lemma paths_ok_values: "paths_ok n m \<Longrightarrow> values_ok n m"
  by (simp add: paths_ok_def values_ok_def scan_map_def)

lemma values_ok_printed: "values_ok n m \<Longrightarrow> print_map m = Inr out \<Longrightarrow> paths_ok n m"
  using print_map_scans by (auto simp: paths_ok_def values_ok_def)

lemma values_ok_set:
  assumes "values_ok n m" and "set_value m p v = Inr m'" and "- 1 \<le> v" and "v < int n" and "n \<le> MAX_SS"
  shows "values_ok n m'"
proof -
  have "pm_inv m' \<and> pm_entries m' = AList.update p v (pm_entries m)"
    using assms by (intro set_value_any) (auto simp: values_ok_def MAX_SS_def)
  with assms update_values [of p v "pm_entries m"] show ?thesis by (auto simp: values_ok_def)
qed

lemma paths_ok_remove: "paths_ok n m \<Longrightarrow> remove_entry m path = Inr m' \<Longrightarrow> paths_ok n m'"
  using remove_entry_any [of m path] by (auto simp: paths_ok_def)

lemma paths_ok_set:
  assumes "paths_ok n m" and "set_value m p v = Inr m'" and "- 1 \<le> v" and "v < int n" and "n \<le> MAX_SS"
    and "CHR ''/'' \<in> set p"
  shows "paths_ok n m'"
proof -
  have e: "pm_inv m' \<and> pm_entries m' = AList.update p v (pm_entries m)"
    using assms by (intro set_value_any) (auto simp: paths_ok_def scan_map_def MAX_SS_def)
  have "list_all (\<lambda>(p, v). scan_s p \<noteq> None) (pm_entries m')"
    unfolding list_all_iff
  proof (rule ballI)
    fix x assume "x \<in> set (pm_entries m')"
    then have "fst x = p \<or> x \<in> set (pm_entries m)" using e update_values [of p v "pm_entries m"] by auto
    moreover have "scan_s (fst x) \<noteq> None" if "x \<in> set (pm_entries m)"
      using that assms(1) unfolding paths_ok_def scan_map_def list_all_iff case_prod_unfold by blast
    ultimately show "case x of (p, v) \<Rightarrow> scan_s p \<noteq> None"
      unfolding case_prod_unfold using scan_s_slash [OF assms(6)] by metis
  qed
  moreover have "values_ok n m'" by (rule values_ok_set [OF paths_ok_values [OF assms(1)] assms(2-5)])
  ultimately show ?thesis by (simp add: paths_ok_def scan_map_def values_ok_def)
qed

lemma get_paths_ss_num:
  assumes "hm_inv m" and "get_paths m path = Inr arr"
  shows "ap_ss_num arr = - 1"
proof -
  let ?c = "\<lambda>(k, n, v) s. get_paths_cb k n v s"
  have step: "fst (get_paths_cb k n v s) = fst s" for k n v s by (simp add: get_paths_cb_def)
  have "ap_ss_num b = ap_ss_num a"
    if "snd (fold ?c es (m, Inr a)) = Inr b" for es a b
    using that
  proof (induction es arbitrary: a)
    case (Cons e es)
    obtain k n v where e: "e = (k, n, v)" by (cases e)
    have fault: "snd (fold ?c es (m, Inl f)) = Inl f" for f es
      by (induction es) (auto simp: get_paths_cb_def)
    show ?case
    proof (cases "snd (get_paths_cb k n v (m, Inr a))")
      case (Inl f)
      then have "get_paths_cb k n v (m, Inr a) = (m, Inl f)" by (simp add: get_paths_cb_def)
      with Cons.prems fault show ?thesis by (simp add: e)
    next
      case (Inr a')
      then have "get_paths_cb k n v (m, Inr a) = (m, Inr a')" by (simp add: get_paths_cb_def)
      moreover have "ap_ss_num a' = ap_ss_num a"
        using Inr by (auto simp: get_paths_cb_def split: option.splits if_splits)
      ultimately show ?thesis using Cons by (simp add: e)
    qed
  qed simp
  from this [of "hm_entries m"] show ?thesis
    using assms(2) hashmap_iterate_law [OF assms(1) step] by (force simp: get_paths_def)
qed

lemma paths_ok_add_loop:
  assumes "add_paths_loop arr dir i ps m = Inr m'" and "paths_ok n m" and "ap_ss_num arr = - 1" and "n \<le> MAX_SS"
  shows "paths_ok n m'"
  using assms
proof (induction arr dir i ps m rule: add_paths_loop.induct)
  case (2 arr dir i p rest m)
  then obtain m1 where m1: "set_value m (dir @ ''/'' @ drop (i + 1) p) (ap_ss_num arr) = Inr m1"
    "add_paths_loop arr dir (i + 1) rest m1 = Inr m'"
    by (auto simp: Let_def fbind_eq_Inr split: if_splits)
  have "paths_ok n m1"
    using 2 by (intro paths_ok_set [OF _ m1(1)]) auto
  with 2 m1 show ?case by (simp split: if_splits)
qed simp

lemma paths_ok_add_paths:
  "add_paths_to_list m v dir folder = Inr m' \<Longrightarrow> paths_ok n m \<Longrightarrow> n \<le> MAX_SS \<Longrightarrow> paths_ok n m'"
proof -
  assume a: "add_paths_to_list m v dir folder = Inr m'" "paths_ok n m" "n \<le> MAX_SS"
  then obtain arr where arr: "get_paths m folder = Inr arr" "add_paths_loop arr dir 0 (ap_paths arr) m = Inr m'"
    by (auto simp: add_paths_to_list_def fbind_eq_Inr split: if_splits)
  moreover have "hm_inv m" using a(2) by (simp add: paths_ok_def scan_map_def pm_inv_def)
  ultimately show "paths_ok n m'" using paths_ok_add_loop get_paths_ss_num a(2,3) by blast
qed

end
