(* ===== verification/Naming_System.thy ===== *)
theory Naming_System
  imports Naming_Invariant
begin

text \<open>
  The naming server as a system of interleaved turns: the main thread accepts connections, client
  threads start and take turns, and between any two of them the outside world may change.
\<close>

section \<open>The invariant\<close>

definition ports_of :: "storage_info \<Rightarrow> int list" where
  "ports_of si = [si_naming_port si, si_client_port si]"

text \<open>
  No storage server uses the port of the naming server or of one registered before. (The two
  ports of one server may be equal: the code does not compare them.)
\<close>

definition servers_disjoint :: "storage_info list \<Rightarrow> bool" where
  "servers_disjoint sis \<longleftrightarrow>
     (\<forall>i < length sis. NAMING_SERVER_PORT \<notin> set (ports_of (sis ! i)) \<and>
        (\<forall>j < i. set (ports_of (sis ! i)) \<inter> set (ports_of (sis ! j)) = {}))"

abbreviation servers :: "'z naming_scheme \<Rightarrow> storage_info list" where
  "servers w \<equiv> take (ns_count w) (ns_infos w)"

definition naming_ok :: "'z naming_scheme \<Rightarrow> bool" where
  "naming_ok w \<longleftrightarrow>
     paths_ok (ns_count w) (ns_paths w) \<and> ns_count w \<le> MAX_SS \<and> length (ns_infos w) = MAX_SS \<and>
     length (ns_used_ports w) = MAX_SS * 2 + 1 \<and>
     take (2 * ns_count w + 1) (ns_used_ports w) = NAMING_SERVER_PORT # concat (map ports_of (servers w)) \<and>
     servers_disjoint (servers w)"

lemma servers_disjoint_snoc:
  "servers_disjoint (sis @ [si]) \<longleftrightarrow>
     servers_disjoint sis \<and> NAMING_SERVER_PORT \<notin> set (ports_of si) \<and>
     set (ports_of si) \<inter> set (concat (map ports_of sis)) = {}"
  by (fastforce simp: servers_disjoint_def nth_append less_Suc_eq in_set_conv_nth)

lemma internal_naming: "world.more w = world.more w' \<Longrightarrow> ns_paths w = ns_paths w' \<and> ns_count w = ns_count w' \<and>
    ns_infos w = ns_infos w' \<and> ns_used_ports w = ns_used_ports w'"
  by (cases w, cases w') simp

lemma naming_ok_internal [simp]: "internal naming_ok"
  unfolding internal_def naming_ok_def using internal_naming by metis

text \<open>The invariant while \<open>k\<close> storage servers are registered.\<close>

definition naming_at :: "nat \<Rightarrow> 'z naming_scheme \<Rightarrow> bool" where
  "naming_at k w \<longleftrightarrow> naming_ok w \<and> ns_count w = k"

lemma naming_at_internal [simp]: "internal (naming_at k)"
  unfolding internal_def naming_at_def naming_ok_def using internal_naming by metis

lemma naming_at_paths: "naming_at k w \<Longrightarrow> paths_ok k m \<Longrightarrow> naming_at k (w\<lparr>ns_paths := m\<rparr>)"
  by (auto simp: naming_at_def naming_ok_def)

lemma naming_atD: "naming_at k w \<Longrightarrow> paths_ok k (ns_paths w) \<and> k \<le> MAX_SS \<and> length (ns_infos w) = MAX_SS"
  by (auto simp: naming_at_def naming_ok_def)

section \<open>Turns of a client\<close>

text \<open>What is known of a number that was looked up.\<close>

definition server_number :: "nat \<Rightarrow> int \<Rightarrow> bool" where
  "server_number k n \<longleftrightarrow> n = - 1 \<or> 0 \<le> n \<and> n < int k"

abbreviation anything :: "'s \<Rightarrow> bool" where
  "anything \<equiv> \<lambda>_. True"

lemma path_server_known:
  "triple (naming_at k) (path_server p) (\<lambda>n w. naming_at k w \<and> server_number k n) anything"
proof (rule tripleI)
  fix w :: "'a naming_scheme" assume w: "naming_at k w"
  show "post (\<lambda>n w. naming_at k w \<and> server_number k n) anything (path_server p w)"
  proof (cases "get_value (ns_paths w) p")
    case (Inr n)
    with w paths_ok_get [of k "ns_paths w" p n] naming_atD [OF w] show ?thesis
      by (auto simp: path_server_def io_simps server_number_def)
  qed (simp add: path_server_def io_simps)
qed

lemma keeps_show_paths [keeps_intros]: "keeps I B show_paths"
  by (simp add: show_paths_def keeps_intros)

text \<open>
  A path that is added may be one that cannot be scanned back; then printing the map, which comes
  next, does not return.
\<close>

lemma keeps_add_path:
  assumes n: "server_number k n" and f: "keeps (naming_at k) B (f ())"
  shows "keeps (naming_at k) B (io_bind (add_path p n) (\<lambda>_. io_bind show_paths f))"
proof (rule keepsI)
  fix w :: "'a naming_scheme" assume w: "naming_at k w"
  show "post (\<lambda>_. naming_at k) B (io_bind (add_path p n) (\<lambda>_. io_bind show_paths f) w)"
  proof (cases "set_value (ns_paths w) p n")
    case (Inr m)
    have m: "values_ok k m"
      by (rule values_ok_set [OF paths_ok_values Inr]) (use naming_atD [OF w] n in \<open>auto simp: server_number_def\<close>)
    show ?thesis
    proof (cases "print_map m")
      case (Inr out)
      then have "naming_at k (w\<lparr>ns_paths := m\<rparr>)" using values_ok_printed [OF m] w by (simp add: naming_at_paths)
      with keepsD [OF f] Inr \<open>set_value (ns_paths w) p n = Inr m\<close> show ?thesis
        by (simp add: add_path_def show_paths_def io_simps)
    qed (simp add: add_path_def show_paths_def io_simps Inr)
  qed (simp add: add_path_def io_simps)
qed

lemma keeps_add_path_show [keeps_intros]:
  "server_number k n \<Longrightarrow> keeps (naming_at k) B (io_bind (add_path p n) (\<lambda>_. show_paths))"
  using keeps_add_path [of k n B io_return p] by (simp add: keeps_return)

lemma keeps_remove_path [keeps_intros]: "keeps (naming_at k) B (remove_path p)"
proof (rule keepsI)
  fix w :: "'a naming_scheme" assume w: "naming_at k w"
  show "post (\<lambda>_. naming_at k) B (remove_path p w)"
  proof (cases "remove_entry (ns_paths w) p")
    case (Inr m)
    have "paths_ok k m" by (rule paths_ok_remove [OF _ Inr]) (use naming_atD [OF w] in simp)
    with Inr w show ?thesis by (simp add: remove_path_def io_simps naming_at_paths)
  qed (simp add: remove_path_def io_simps)
qed

lemma keeps_add_copied_paths [keeps_intros]: "keeps (naming_at k) B (add_copied_paths n dir folder)"
proof (rule keepsI)
  fix w :: "'a naming_scheme" assume w: "naming_at k w"
  show "post (\<lambda>_. naming_at k) B (add_copied_paths n dir folder w)"
  proof (cases "add_paths_to_list (ns_paths w) n dir folder")
    case (Inr m)
    have "paths_ok k m" by (rule paths_ok_add_paths [OF Inr]) (use naming_atD [OF w] in simp_all)
    with Inr w show ?thesis by (simp add: add_copied_paths_def io_simps naming_at_paths)
  qed (simp add: add_copied_paths_def io_simps)
qed

lemma keeps_server_info [keeps_intros]: "keeps I B (server_info n)"
  by (simp add: server_info_def keeps_intros)

lemma keeps_reply [keeps_intros]: "internal I \<Longrightarrow> keeps I B (reply c text)"
  by (simp add: reply_def keeps_intros)

lemma keeps_ns_send_args [keeps_intros]:
  "internal I \<Longrightarrow> keeps I anything (ns_send_args s as)"
  by (induction as) (simp_all add: keeps_intros)

lemma keeps_ns_connect [keeps_intros]:
  "internal I \<Longrightarrow> keeps I anything (ns_connectToStorageServer ip port args n)"
  by (simp add: ns_connectToStorageServer_def keeps_intros)

lemma keeps_getResults [keeps_intros]:
  "internal I \<Longrightarrow> keeps I anything (getResultsFromSS ip port args n)"
  by (simp add: getResultsFromSS_def keeps_intros)

lemma keeps_forward_loop [keeps_intros]:
  assumes "internal I"
  shows "keeps I anything (forward_loop s1 s2)"
proof (rule keepsI)
  fix w assume "I w"
  then show "post (\<lambda>_. I) anything (forward_loop s1 s2 w)"
  proof (induction s1 s2 w rule: forward_loop.induct)
    case (1 s1 s2 w)
    show ?case
      apply (subst forward_loop.simps)
      apply (rule post_step [where I = I])
        apply (simp add: assms keeps_intros)
       apply (rule "1.prems")
      apply (rule post_if_value)
       apply (simp add: io_simps)
      apply (rule post_step [where I = I])
        apply (simp add: keeps_intros)
       apply assumption
      apply (rule post_if_value)
       apply (simp add: io_simps)
      apply (rule post_step [where I = I])
        apply (simp add: assms keeps_intros)
       apply assumption
      apply (rule "1.IH")
      by assumption+
  qed
qed

lemma keeps_facilitateCopy [keeps_intros]: "internal I \<Longrightarrow> keeps I anything (facilitateCopy s1 s2)"
  by (simp add: facilitateCopy_def keeps_intros)

lemmas keeps_path_server = keeps_bind_known [OF path_server_known]

lemma keeps_create_delete [keeps_intros]: "keeps (naming_at k) anything (create_delete c args n)"
  unfolding create_delete_def Let_def
  by (intro keeps_send_or_exit keeps_path_server keeps_intros naming_at_internal)

lemma keeps_send_address [keeps_intros]: "keeps (naming_at k) anything (send_address c t args)"
  unfolding send_address_def
  by (intro keeps_send_or_exit keeps_path_server keeps_intros naming_at_internal)

lemma keeps_copy [keeps_intros]: "keeps (naming_at k) anything (copy c args)"
  unfolding copy_def Let_def
  by (intro keeps_send_or_exit keeps_path_server keeps_add_path keeps_intros naming_at_internal)

lemma keeps_client_handler_turn: "keeps (naming_at k) anything (client_handler_turn c args)"
  unfolding client_handler_turn_defs
  by (intro keeps_intros naming_at_internal waiting_True)

lemma keeps_clients_update: "keeps (naming_at k) B (io_update (ns_clients_update f))"
  by (rule keeps_update) (auto simp: naming_at_def naming_ok_def)

lemma keeps_lru_update: "keeps (naming_at k) B (io_update (ns_lru_update f))"
  by (rule keeps_update) (auto simp: naming_at_def naming_ok_def)

lemma keeps_client_thread_turn: "keeps (naming_at k) anything (client_thread_turn c)"
  unfolding client_thread_turn_def client_thread_end_def
  by (intro keeps_bind keeps_get keeps_option keeps_client_handler_turn keeps_clients_update keeps_intros)
     (simp_all add: keepsI io_simps)

lemma keeps_client_handler_start: "keeps (naming_at k) B (client_handler_start lit)"
  unfolding client_handler_start_def
  by (intro keeps_bind keeps_get keeps_lift keeps_lru_update keeps_prod)

section \<open>Registration\<close>

lemma values_ok_register_paths:
  assumes "register_paths junk v ps rs as m l = Inr (m', l')" and "values_ok n m" and "- 1 \<le> v" and "v < int n"
    and "n \<le> MAX_SS"
  shows "values_ok n m'"
  using assms
proof (induction junk v ps rs as m l rule: register_paths.induct)
  case (1 junk v p ps r rs a as m l)
  then obtain m1 l1 where "set_value m p v = Inr m1" "put_LRU l r v a junk = Inr l1"
    "register_paths junk v ps rs as m1 l1 = Inr (m', l')" by (auto simp: fbind_eq_Inr)
  with 1 values_ok_set show ?case by blast
qed simp_all

text \<open>The state after a storage server has been entered in the tables.\<close>

definition entered :: "storage_info \<Rightarrow> hashmap \<Rightarrow> lru \<Rightarrow> 'z naming_scheme \<Rightarrow> 'z naming_scheme" where
  "entered si m l w =
     w\<lparr>ns_infos := (ns_infos w)[ns_count w := si], ns_paths := m, ns_lru := l, ns_count := Suc (ns_count w),
       ns_used_ports := (ns_used_ports w)[2 * (ns_count w + 1) - 1 := si_naming_port si,
         2 * (ns_count w + 1) := si_client_port si]\<rparr>"

lemma entered_eq:
  "ns_used_ports_update
     (\<lambda>u. u[Suc (2 * ns_count w) := si_naming_port si, Suc (Suc (2 * ns_count w)) := si_client_port si])
     (ns_count_update Suc (ns_infos_update (\<lambda>infos. infos[ns_count w := si]) w\<lparr>ns_paths := m, ns_lru := l\<rparr>)) =
   entered si m l w"
  by (cases w) (simp add: entered_def)

lemma take_update_two:
  "n + 1 < length xs \<Longrightarrow> take (n + 2) (xs[n := a, n + 1 := b]) = take n xs @ [a, b]"
  by (rule nth_equalityI) (auto simp: nth_append nth_list_update less_Suc_eq)

lemma naming_ok_entered:
  assumes ok: "naming_ok w" and room: "ns_count w < MAX_SS" and m: "paths_ok (Suc (ns_count w)) m"
    and ports: "port_available (ns_used_ports w) (ns_count w) si"
  shows "naming_ok (entered si m l w)"
proof -
  let ?k = "ns_count w" and ?infos = "(ns_infos w)[ns_count w := si]"
  have len: "length (ns_infos w) = MAX_SS" "length (ns_used_ports w) = MAX_SS * 2 + 1"
    and used: "take (2 * ?k + 1) (ns_used_ports w) = NAMING_SERVER_PORT # concat (map ports_of (servers w))"
    and disj: "servers_disjoint (servers w)"
    using ok by (auto simp: naming_ok_def)
  have infos: "take (Suc ?k) ?infos = servers w @ [si]"
    using room len by (simp add: take_Suc_conv_app_nth)
  have "take (2 * ?k + 1 + 2) ((ns_used_ports w)[2 * ?k + 1 := si_naming_port si, 2 * ?k + 1 + 1 := si_client_port si]) =
      take (2 * ?k + 1) (ns_used_ports w) @ ports_of si"
    unfolding ports_of_def using room len by (intro take_update_two) simp
  then have "take (2 * Suc ?k + 1) (ns_used_ports (entered si m l w)) =
      NAMING_SERVER_PORT # concat (map ports_of (take (Suc ?k) ?infos))"
    unfolding infos using used by (simp add: entered_def)
  moreover have "servers_disjoint (take (Suc ?k) ?infos)"
    unfolding infos servers_disjoint_snoc
    using disj ports used by (auto simp: port_available_def list_all_iff ports_of_def)
  ultimately show ?thesis using room len m by (simp add: naming_ok_def entered_def)
qed

lemma enter_server_entered:
  assumes "enter_server rows news junk si w = Done u w'"
  shows "ns_count w < MAX_SS \<and> (\<exists>m l out. w' = entered si m l w \<and> print_map m = Inr out \<and>
    register_paths junk (int (ns_count w)) (si_paths si) rows news (ns_paths w) (ns_lru w) = Inr (m, l))"
proof (cases "register_paths junk (int (ns_count w)) (si_paths si) rows news (ns_paths w) (ns_lru w)")
  case (Inl e)
  with assms show ?thesis by (simp add: enter_server_def io_simps split: if_splits)
next
  case (Inr ml)
  obtain m l where ml: "ml = (m, l)" by (cases ml)
  show ?thesis
  proof (cases "print_map m")
    case (Inl e)
    with assms Inr ml show ?thesis by (simp add: enter_server_def show_paths_def io_simps split: if_splits)
  next
    case out: (Inr out)
    with assms Inr ml show ?thesis
      by (auto simp: enter_server_def show_paths_def io_simps entered_eq split: if_splits)
  qed
qed

lemma enter_server_keeps:
  assumes ok: "naming_ok w" and ports: "port_available (ns_used_ports w) (ns_count w) si"
  shows "post (\<lambda>_. naming_ok) anything (enter_server rows news junk si w)"
proof (cases "enter_server rows news junk si w")
  case (Done u w')
  from enter_server_entered [OF this] obtain m l out where
    e: "ns_count w < MAX_SS" "w' = entered si m l w" "print_map m = Inr out"
    "register_paths junk (int (ns_count w)) (si_paths si) rows news (ns_paths w) (ns_lru w) = Inr (m, l)" by blast
  have "values_ok (Suc (ns_count w)) (ns_paths w)"
    using ok paths_ok_mono [of "ns_count w" "ns_paths w" "Suc (ns_count w)"] by (simp add: naming_ok_def paths_ok_values)
  then have "values_ok (Suc (ns_count w)) m"
    by (rule values_ok_register_paths [OF e(4)]) (use e(1) in auto)
  then have "paths_ok (Suc (ns_count w)) m" using e(3) by (rule values_ok_printed)
  with naming_ok_entered [OF ok e(1) _ ports] e(2) Done show ?thesis by simp
qed simp_all

lemma keeps_register_server: "keeps naming_ok anything (register_server rows news junk s)"
proof -
  have answer: "keeps naming_ok anything (io_bind (reply s msg) (\<lambda>_. close_socket s))" for msg
    by (intro keeps_intros naming_ok_internal)
  have table: "keeps naming_ok anything (io_bind (io_get ns_count) (\<lambda>count. io_bind (io_get ns_used_ports) (\<lambda>used_ports.
     if length used_ports < 2 * count + 1 then io_fault OutOfBounds
     else if \<not> port_available used_ports count si
     then io_bind (reply s ''FAIL'') (\<lambda>_. close_socket s)
     else io_bind (enter_server rows news junk si) (\<lambda>_. io_bind (reply s ''ACK'') (\<lambda>_. close_socket s)))))" for si
  proof (rule keepsI)
    fix w assume w: "naming_ok w"
    have "post (\<lambda>_. naming_ok) anything
        (io_bind (enter_server rows news junk si) (\<lambda>_. io_bind (reply s ''ACK'') (\<lambda>_. close_socket s)) w)"
      if "port_available (ns_used_ports w) (ns_count w) si"
      by (rule post_bind [where R = "\<lambda>_. naming_ok"], rule enter_server_keeps [OF w that], rule keepsD [OF answer])
    with keepsD [OF answer w] show "post (\<lambda>_. naming_ok) anything (io_bind (io_get ns_count) (\<lambda>count.
       io_bind (io_get ns_used_ports) (\<lambda>used_ports.
       if length used_ports < 2 * count + 1 then io_fault OutOfBounds
       else if \<not> port_available used_ports count si
       then io_bind (reply s ''FAIL'') (\<lambda>_. close_socket s)
       else io_bind (enter_server rows news junk si) (\<lambda>_. io_bind (reply s ''ACK'') (\<lambda>_. close_socket s)))) w)"
      using w by (simp add: io_simps)
  qed
  have lru: "keeps naming_ok anything (io_update (ns_lru_update f))" for f
    by (rule keeps_update) (simp add: naming_ok_def)
  show ?thesis
    unfolding register_server_def
    by (intro keeps_bind [OF keeps_reply] keeps_bind [OF keeps_recv_or_exit] keeps_bind [OF keeps_lift]
        keeps_bind [OF lru] table naming_ok_internal waiting_True)
qed

lemma keeps_accept_connection: "keeps naming_ok anything (accept_connection rows news junk junk_args s)"
  unfolding accept_connection_def
  by (intro keeps_intros keeps_register_server naming_ok_internal waiting_True keeps_update)
     (simp add: naming_ok_def)

section \<open>The system\<close>

text \<open>
  The steps: a connection is accepted, a client thread starts, a client thread takes a turn, or
  the outside world moves, which leaves the naming server's own variables alone. A step is a turn
  that returns; the code's turns that exit end the program.
\<close>

inductive naming_step :: "naming \<Rightarrow> naming \<Rightarrow> bool" where
  accept: "accept_connection rows news junk junk_args s w = Done () w' \<Longrightarrow> naming_step w w'"
| start: "client_handler_start lit w = Done () w' \<Longrightarrow> naming_step w w'"
| turn: "client_thread_turn c w = Done () w' \<Longrightarrow> naming_step w w'"
| outside: "world.more w' = world.more w \<Longrightarrow> naming_step w w'"

inductive naming_reachable :: "naming \<Rightarrow> bool" where
  init: "naming_reachable (naming_start w l)"
| step: "naming_reachable w \<Longrightarrow> naming_step w w' \<Longrightarrow> naming_reachable w'"

lemma naming_ok_at: "naming_ok w \<Longrightarrow> naming_at (ns_count w) w"
  by (simp add: naming_at_def)

lemma keeps_at_ok:
  "(\<And>k. keeps (naming_at k) anything m) \<Longrightarrow> naming_ok w \<Longrightarrow> m w = Done x w' \<Longrightarrow> naming_ok w'"
  using keepsD [of "naming_at (ns_count w)" anything m w] naming_ok_at [of w] by (simp add: naming_at_def)

lemma naming_step_ok: "naming_step w w' \<Longrightarrow> naming_ok w \<Longrightarrow> naming_ok w'"
proof (induction rule: naming_step.induct)
  case (accept rows news junk junk_args s w w')
  then show ?case using keepsD [OF keeps_accept_connection, of w rows news junk junk_args s] by simp
next
  case (start lit w w')
  then show ?case using keeps_at_ok [OF keeps_client_handler_start] by blast
next
  case (turn c w w')
  then show ?case using keeps_at_ok [OF keeps_client_thread_turn] by blast
next
  case (outside w' w)
  then show ?case using internalD [OF naming_ok_internal] by blast
qed

lemma naming_start_ok: "naming_ok (naming_start w l)"
  using paths_ok_create by (simp add: naming_ok_def naming_start_def world.defs servers_disjoint_def)

lemma naming_reachable_ok: "naming_reachable w \<Longrightarrow> naming_ok w"
  by (induction rule: naming_reachable.induct) (auto intro: naming_start_ok naming_step_ok)

end
