(* ===== verification/Registration_Protocol.thy ===== *)
theory Registration_Protocol
  imports Transfers Naming_System
begin

text \<open>
  A storage server introduces itself to the naming server: the two programs fit together, and the
  tables of the naming server afterwards.
\<close>

section \<open>The loop over the paths\<close>

lemma register_paths_law:
  assumes "plain_map m" and "list_all (\<lambda>p. plain p \<and> length p \<le> 4090) ps" and "0 \<le> n" and "n < 2 ^ 31"
    and "lru_rep l xs" and "0 < lru_capacity l"
    and "list_all2 (\<lambda>r p. lru_strings l r = Some p) rows ps"
    and "length news = length ps" and "distinct news" and "\<forall>a\<in>set news. a \<noteq> 0 \<and> lru_nodes l a = None"
  shows "\<exists>m' l'. register_paths junk n ps rows news m l = Inr (m', l') \<and> plain_map m' \<and>
    pm_entries m' = fold (\<lambda>p. AList.update p n) ps (pm_entries m) \<and>
    lru_rep l' (fold (\<lambda>p xs. cache_put (lru_capacity l) xs p n) ps xs) \<and> lru_capacity l' = lru_capacity l"
  using assms
proof (induction ps arbitrary: rows news m l xs)
  case (Cons p ps)
  from Cons.prems(7) obtain r rs where rows: "rows = r # rs" "lru_strings l r = Some p"
    "list_all2 (\<lambda>r p. lru_strings l r = Some p) rs ps" by (auto simp: list_all2_Cons2)
  from Cons.prems(8) obtain a as where news: "news = a # as" "length as = length ps"
    by (cases news) auto
  have p: "plain p" "length p \<le> 4090" using Cons.prems(2) by auto
  obtain m1 where m1: "set_value m p n = Inr m1" "plain_map m1" "pm_entries m1 = AList.update p n (pm_entries m)"
    by (rule set_value_plain [OF Cons.prems(1) p, of n]) (use Cons.prems(3,4) in auto)
  have key: "lru_key p" using p by (intro lru_key_fits) (auto simp: plain_def)
  have a: "lru_nodes l a = None" "a \<noteq> 0" using Cons.prems(10) news by auto
  obtain l1 qs where l1: "put_LRU l r n a junk = Inr l1" "lru_rep_at l1 (a # qs)"
    "map (node_entry l1) (a # qs) = cache_put (lru_capacity l) xs p n"
    "map_option n_key (lru_nodes l1 a) = Some r"
    "lru_capacity l1 = lru_capacity l" "lru_strings l1 = lru_strings l"
    "\<And>q. lru_nodes l q = None \<Longrightarrow> q \<noteq> a \<Longrightarrow> lru_nodes l1 q = None"
    by (rule put_LRU_at [OF Cons.prems(5,6) rows(2) key a, of n junk]) metis
  have "lru_rep l1 (cache_put (lru_capacity l) xs p n)"
    unfolding lru_rep_def l1(3) [symmetric] using l1(2) by blast
  then have "\<exists>m' l'. register_paths junk n ps rs as m1 l1 = Inr (m', l') \<and> plain_map m' \<and>
    pm_entries m' = fold (\<lambda>p. AList.update p n) ps (pm_entries m1) \<and>
    lru_rep l' (fold (\<lambda>p xs. cache_put (lru_capacity l1) xs p n) ps (cache_put (lru_capacity l) xs p n)) \<and>
    lru_capacity l' = lru_capacity l1"
  proof (intro Cons.IH)
    show "\<forall>b\<in>set as. b \<noteq> 0 \<and> lru_nodes l1 b = None"
    proof
      fix b assume "b \<in> set as"
      then have "b \<noteq> a" "b \<noteq> 0" "lru_nodes l b = None" using Cons.prems(9,10) news by auto
      with l1(7) show "b \<noteq> 0 \<and> lru_nodes l1 b = None" by simp
    qed
  qed (use Cons.prems m1 l1 rows news \<open>lru_rep l1 (cache_put (lru_capacity l) xs p n)\<close> in simp_all)
  then show ?case using m1 l1 rows news by auto
qed auto

text \<open>The addresses of the rows and of the new nodes are as \<^verbatim>\<open>malloc\<close> and the stack give them.\<close>

definition memory_ready :: "addr list \<Rightarrow> addr list \<Rightarrow> lru \<Rightarrow> bool" where
  "memory_ready rows news l \<longleftrightarrow>
     length rows = MAX_ACC_PATHS \<and> distinct rows \<and> length news = MAX_ACC_PATHS \<and> distinct news \<and>
     (\<forall>a\<in>set news. a \<noteq> 0 \<and> lru_nodes l a = None)"

lemma overwrite_rows_strings:
  assumes "distinct rows" and "length rows = length ps"
  shows "list_all2 (\<lambda>r p. lru_strings (overwrite_rows rows ps l) r = Some p) rows ps"
proof -
  have frame: "foldl (\<lambda>f (r, p). f(r \<mapsto> p)) g (zip rs qs) x = g x" if "x \<notin> set rs" for g rs qs x
    using that
  proof (induction rs arbitrary: g qs)
    case (Cons r rs)
    then show ?case by (cases qs) auto
  qed simp
  have "list_all2 (\<lambda>r p. foldl (\<lambda>f (r, p). f(r \<mapsto> p)) g (zip rows ps) r = Some p) rows ps" for g
    using assms
  proof (induction rows arbitrary: g ps)
    case (Cons r rs)
    then obtain p qs where ps: "ps = p # qs" "length rs = length qs" by (cases ps) auto
    have "r \<notin> set rs" "distinct rs" using Cons.prems(1) by auto
    then show ?case
      using Cons.IH [OF _ ps(2), of "g(r \<mapsto> p)"] frame [of r rs "g(r \<mapsto> p)" qs]
      by (simp add: ps(1) del: fun_upd_apply) (simp only: fun_upd_same)
  qed simp
  then show ?thesis by (simp add: overwrite_rows_def)
qed

section \<open>The conversation\<close>

abbreviation greeting :: string where
  "greeting \<equiv> buffer MAX_BUFFER_SIZE (''Initialising storage serevr with server info'' @ [CHR 0x0A] @ white)"

abbreviation big :: "string \<Rightarrow> string" where
  "big s \<equiv> buffer MAX_BUFFER_SIZE s"

lemma big_string [simp]: "NUL \<notin> set s \<Longrightarrow> length s < MAX_BUFFER_SIZE \<Longrightarrow> buffer_string MAX_BUFFER_SIZE (big s) = Inr s"
  by (rule buffer_string_buffer)

lemma big_ACK [simp]: "buffer_string MAX_BUFFER_SIZE (big ''ACK'') = Inr ''ACK''"
    "buffer_string MAX_BUFFER_SIZE (big ''FAIL'') = Inr ''FAIL''"
    "buffer_string MAX_BUFFER_SIZE (big ''s'') = Inr ''s''"
  by (rule big_string; simp add: NUL_def MAX_BUFFER_SIZE_def)+

lemma introduce_run:
  assumes "w_send_ok w = []" and "w_in w c = [Some greeting, Some (big ''ACK'')]"
  shows "introduce si c w =
    Done () (emit [Sent c (big ''s''), Sent c (encode_info si), Closed c] (set_in c [] w))"
  using assms by (simp add: introduce_def io_simps run_simps)

lemma introduce_refused:
  assumes "w_send_ok w = []" and "w_in w c = [Some greeting, Some (big ''FAIL'')]"
  shows "introduce si c w = Exited (emit [Sent c (big ''s''), Sent c (encode_info si)] (set_in c [] w))"
  using assms by (simp add: introduce_def io_simps run_simps strcaseeq_def to_lower_def)

lemma naming_fields [simp]:
  "ns_count (emit es w) = ns_count w" "ns_count (set_in s q w) = ns_count w"
  "ns_paths (emit es w) = ns_paths w" "ns_paths (set_in s q w) = ns_paths w"
  "ns_infos (emit es w) = ns_infos w" "ns_infos (set_in s q w) = ns_infos w"
  "ns_lru (emit es w) = ns_lru w" "ns_lru (set_in s q w) = ns_lru w"
  "ns_used_ports (emit es w) = ns_used_ports w" "ns_used_ports (set_in s q w) = ns_used_ports w"
  "ns_clients (emit es w) = ns_clients w" "ns_clients (set_in s q w) = ns_clients w"
  by (simp_all add: emit_def set_in_def)

lemma entered_normal [simp]:
  "entered si m l (emit es w) = emit es (entered si m l w)"
  "entered si m l (set_in s q w) = set_in s q (entered si m l w)"
  "entered si m l (ns_lru_update f w) = entered si m l w"
  "w_send_ok (entered si m l w) = w_send_ok w" "w_in (entered si m l w) = w_in w"
  "w_events (entered si m l w) = w_events w"
  by (simp_all add: entered_def emit_def set_in_def)

lemma lru_update_normal [simp]:
  "ns_lru_update f (emit es w) = emit es (ns_lru_update f w)"
  "ns_lru_update f (set_in s q w) = set_in s q (ns_lru_update f w)"
  "w_send_ok (ns_lru_update f w) = w_send_ok w" "w_in (ns_lru_update f w) = w_in w"
  by (simp_all add: emit_def set_in_def)

lemma enter_server_run:
  assumes "ns_count w < MAX_SS" and "print_map m = Inr out"
    and "register_paths junk (int (ns_count w)) (si_paths si) rows news (ns_paths w) (ns_lru w) = Inr (m, l)"
  shows "enter_server rows news junk si w = Done () (entered si m l w)"
  using assms by (simp add: enter_server_def show_paths_def io_simps entered_eq)

lemma length_encode_info: "info_ok si \<Longrightarrow> length (encode_info si) = info_size"
  by (simp add: encode_info_def info_ok_def info_size_def length_encode_rows)

text \<open>The naming server's side.\<close>

lemma register_run:
  assumes ok: "w_send_ok w = []" and input: "w_in w s = [Some (big ''s''), Some (encode_info si)]"
    and si: "info_ok si" and used: "2 * ns_count w + 1 \<le> length (ns_used_ports w)"
    and free: "port_available (ns_used_ports w) (ns_count w) si" and room: "ns_count w < MAX_SS"
    and regs: "register_paths junk (int (ns_count w)) (si_paths si) rows news (ns_paths w)
        (overwrite_rows rows (si_paths si) (ns_lru w)) = Inr (m, l)"
    and out: "print_map m = Inr out"
  shows "accept_connection rows news junk junk_args s w =
    Done () (emit [Sent s greeting, Sent s (big ''ACK''), Closed s] (set_in s [] (entered si m l w)))"
proof -
  let ?w = "ns_lru_update (overwrite_rows rows (si_paths si)) (emit [Sent s greeting] (set_in s [] w))"
  have "enter_server rows news junk si ?w = Done () (entered si m l ?w)"
    by (rule enter_server_run [OF _ out]) (use room regs in simp_all)
  then show ?thesis
    using assms Registration.decode_encode [OF si] length_encode_info [OF si]
    by (simp add: accept_connection_def register_server_def reply_def io_simps run_simps strcaseeq_def to_lower_def)
qed

lemma map_of_fold_update:
  "map_of (fold (\<lambda>p. AList.update p n) ps xs) q = (if q \<in> set ps then Some n else map_of xs q)"
  by (induction ps arbitrary: xs) (auto simp: update_conv)

definition can_register :: "addr list \<Rightarrow> addr list \<Rightarrow> storage_info \<Rightarrow> 'z naming_scheme \<Rightarrow> bool" where
  "can_register rows news si w \<longleftrightarrow>
     plain_map (ns_paths w) \<and> ns_count w < MAX_SS \<and> info_ok si \<and>
     list_all (\<lambda>p. plain p \<and> length p \<le> 4090) (si_paths si) \<and>
     memory_ready rows news (ns_lru w) \<and> 0 < lru_capacity (ns_lru w) \<and>
     (\<exists>xs. lru_rep (overwrite_rows rows (si_paths si) (ns_lru w)) xs)"

lemma overwrite_rows_fields [simp]:
  "lru_nodes (overwrite_rows rows ps l) = lru_nodes l" "lru_capacity (overwrite_rows rows ps l) = lru_capacity l"
  by (simp_all add: overwrite_rows_def)

lemma register_tables:
  assumes "can_register rows news si w"
  shows "\<exists>m l. register_paths junk (int (ns_count w)) (si_paths si) rows news (ns_paths w)
      (overwrite_rows rows (si_paths si) (ns_lru w)) = Inr (m, l) \<and> plain_map m \<and>
    pm_entries m = fold (\<lambda>p. AList.update p (int (ns_count w))) (si_paths si) (pm_entries (ns_paths w))"
proof -
  have c: "plain_map (ns_paths w)" "ns_count w < MAX_SS" "length (si_paths si) = MAX_ACC_PATHS"
    "list_all (\<lambda>p. plain p \<and> length p \<le> 4090) (si_paths si)" "length rows = MAX_ACC_PATHS" "distinct rows"
    "length news = MAX_ACC_PATHS" "distinct news" "\<forall>a\<in>set news. a \<noteq> 0 \<and> lru_nodes (ns_lru w) a = None"
    "0 < lru_capacity (ns_lru w)"
    using assms by (auto simp: can_register_def memory_ready_def info_ok_def)
  obtain xs where xs: "lru_rep (overwrite_rows rows (si_paths si) (ns_lru w)) xs"
    using assms by (auto simp: can_register_def)
  have "list_all2 (\<lambda>r p. lru_strings (overwrite_rows rows (si_paths si) (ns_lru w)) r = Some p) rows (si_paths si)"
    by (rule overwrite_rows_strings) (use c in simp_all)
  from register_paths_law [OF c(1,4) _ _ xs _ this, of "int (ns_count w)" news junk] c show ?thesis
    by (auto simp: MAX_SS_def)
qed

lemma register_law:
  assumes "naming_ok wn" and "can_register rows news si wn"
    and "port_available (ns_used_ports wn) (ns_count wn) si"
    and "w_send_ok wn = []" and "w_send_ok ws = []"
  shows "\<exists>wn' ws'. talk s (accept_connection rows news junk junk_args s) wn c (introduce si c) ws () wn' () ws' \<and>
    servers wn' = servers wn @ [si] \<and> naming_ok wn' \<and>
    (\<forall>p\<in>set (si_paths si). get_value (ns_paths wn') p = Inr (int (ns_count wn))) \<and>
    (\<forall>p. p \<notin> set (si_paths si) \<longrightarrow> map_of (pm_entries (ns_paths wn')) p = map_of (pm_entries (ns_paths wn)) p) \<and>
    plain_map (ns_paths wn') \<and> w_send_ok wn' = []"
proof -
  obtain m l where m: "register_paths junk (int (ns_count wn)) (si_paths si) rows news (ns_paths wn)
      (overwrite_rows rows (si_paths si) (ns_lru wn)) = Inr (m, l)" "plain_map m"
    "pm_entries m = fold (\<lambda>p. AList.update p (int (ns_count wn))) (si_paths si) (pm_entries (ns_paths wn))"
    using register_tables [OF assms(2)] by blast
  let ?en = "[Sent s greeting, Sent s (big ''ACK''), Closed s]"
  let ?es = "[Sent c (big ''s''), Sent c (encode_info si), Closed c]"
  let ?wn = "emit ?en (set_in s [] (entered si m l wn))" and ?ws = "emit ?es (set_in c [] ws)"
  let ?w0 = "set_in s [Some (big ''s''), Some (encode_info si)] wn"
  have room: "ns_count wn < MAX_SS" and si: "info_ok si" and len: "length (ns_infos wn) = MAX_SS"
    "length (ns_used_ports wn) = MAX_SS * 2 + 1"
    using assms(1,2) by (auto simp: can_register_def naming_ok_def)
  have "accept_connection rows news junk junk_args s ?w0 = Done () (emit ?en (set_in s [] (entered si m l ?w0)))"
    by (rule register_run [OF _ _ si _ _ _ _ print_map_law [OF m(2)]]) (use assms m room len in simp_all)
  then have naming: "accept_connection rows news junk junk_args s
      (feed s [big ''s'', encode_info si] wn) = Done () ?wn" by (simp add: feed_set_in)
  have storage: "introduce si c (feed c [greeting, big ''ACK''] ws) = Done () ?ws"
    using introduce_run [of "feed c [greeting, big ''ACK''] ws" c si] assms(5) by (simp add: feed_set_in)
  have "talk s (accept_connection rows news junk junk_args s) wn c (introduce si c) ws () ?wn () ?ws"
    using naming storage by (simp add: talk_def new_events_def)
  moreover have "naming_ok ?wn"
  proof -
    have "naming_ok (feed s [big ''s'', encode_info si] wn)"
      using internalD [OF naming_ok_internal assms(1)] by (simp add: feed_def)
    with keepsD [OF keeps_accept_connection, of "feed s [big ''s'', encode_info si] wn" rows news junk junk_args s]
      naming show ?thesis by simp
  qed
  moreover have "servers ?wn = servers wn @ [si]"
    using room len by (simp add: entered_def take_Suc_conv_app_nth)
  moreover have "get_value (ns_paths ?wn) p = Inr (int (ns_count wn))" if "p \<in> set (si_paths si)" for p
  proof -
    have "plain p" "length p \<le> 4090" using assms(2) that by (auto simp: can_register_def list_all_iff)
    then obtain t where "format_key p = Inr t" using format_key_fits by (auto simp: plain_def)
    with m that show ?thesis
      using get_value_law [of m p t] by (simp add: entered_def plain_map_def map_of_fold_update)
  qed
  moreover have "map_of (pm_entries (ns_paths ?wn)) p = map_of (pm_entries (ns_paths wn)) p"
    if "p \<notin> set (si_paths si)" for p
    using that m(3) by (simp add: entered_def map_of_fold_update)
  moreover have "plain_map (ns_paths ?wn)" "w_send_ok ?wn = []" using m(2) assms(4) by (simp_all add: entered_def)
  ultimately show ?thesis by (intro exI [of _ ?wn] exI [of _ ?ws]) blast
qed


text \<open>
  Claim C28. A storage server one of whose ports is taken is refused: it is told FAIL and exits, and
  the naming server's tables of servers, ports and paths stay as they were.
\<close>

theorem registration_refused:
  assumes "naming_ok wn" and "info_ok si" and "\<not> port_available (ns_used_ports wn) (ns_count wn) si"
    and "w_send_ok wn = []" and "w_send_ok ws = []"
  shows "\<exists>wn' ws'.
    accept_connection rows news junk junk_args s (feed s (sends c (new_events ws ws')) wn) = Done () wn' \<and>
    introduce si c (feed c (sends s (new_events wn wn')) ws) = Exited ws' \<and>
    ns_count wn' = ns_count wn \<and> ns_infos wn' = ns_infos wn \<and> ns_used_ports wn' = ns_used_ports wn \<and>
    ns_paths wn' = ns_paths wn"
proof -
  let ?en = "[Sent s greeting, Sent s (big ''FAIL''), Closed s]"
  let ?es = "[Sent c (big ''s''), Sent c (encode_info si)]"
  let ?wn = "emit ?en (set_in s [] (ns_lru_update (overwrite_rows rows (si_paths si)) wn))"
  let ?ws = "emit ?es (set_in c [] ws)"
  have "length (ns_used_ports wn) = MAX_SS * 2 + 1" "ns_count wn \<le> MAX_SS" using assms(1) by (auto simp: naming_ok_def)
  then have "accept_connection rows news junk junk_args s (feed s [big ''s'', encode_info si] wn) = Done () ?wn"
    using assms(2-4) Registration.decode_encode [OF assms(2)] length_encode_info [OF assms(2)]
    by (simp add: feed_set_in accept_connection_def register_server_def reply_def io_simps run_simps
        strcaseeq_def to_lower_def)
  moreover have "introduce si c (feed c [greeting, big ''FAIL''] ws) = Exited ?ws"
    using introduce_refused [of "feed c [greeting, big ''FAIL''] ws" c si] assms(5) by (simp add: feed_set_in)
  moreover have "new_events wn ?wn = ?en" "new_events ws ?ws = ?es" by (simp_all add: new_events_def)
  ultimately show ?thesis by (intro exI [of _ ?wn] exI [of _ ?ws]) simp
qed

section \<open>Witnesses\<close>

definition example_world :: world where
  "example_world =
     \<lparr>w_in = (\<lambda>_. []), w_send_ok = [], w_connect = [], w_next = 3, w_stdin = [], w_files = (\<lambda>_. None),
      w_locked = (\<lambda>_. False), w_events = []\<rparr>"

definition example_naming :: naming where
  "example_naming = naming_start example_world (createLRU (\<lambda>_. None) 20 0 1 2 hashmap_create 3)"

definition full_info :: storage_info where
  "full_info = example_info\<lparr>si_paths := ''/d'' # ''/e/notes.txt'' # replicate 13 ''/a.txt''\<rparr>"

definition example_rows :: "addr list" where
  "example_rows = [101, 102, 103, 104, 105, 106, 107, 108, 109, 110, 111, 112, 113, 114, 115]"

definition example_news :: "addr list" where
  "example_news = [201, 202, 203, 204, 205, 206, 207, 208, 209, 210, 211, 212, 213, 214, 215]"

lemma full_info_ok: "info_ok full_info"
  by (simp add: info_ok_def full_info_def example_info_def NUL_def MAX_ACC_PATHS_def list_all_iff)

lemma start_ports: "(replicate (MAX_SS * 2 + 1) 0)[0 := p] = p # replicate 20 0"
proof -
  have "MAX_SS * 2 + 1 = Suc 20" by (simp add: MAX_SS_def)
  then show ?thesis by (simp only: replicate_Suc list_update_code)
qed

lemma example_naming_fields [simp]:
  "ns_count example_naming = 0" "ns_infos example_naming = replicate MAX_SS empty_info"
  "ns_used_ports example_naming = NAMING_SERVER_PORT # replicate 20 0"
  "ns_paths example_naming = hashmap_create" "w_send_ok example_naming = []"
  "ns_lru example_naming = createLRU (\<lambda>_. None) 20 0 1 2 hashmap_create 3"
  by (simp_all add: example_naming_def naming_start_def example_world_def world.defs start_ports del: One_nat_def)

lemma example_naming_ok: "naming_ok example_naming"
  unfolding example_naming_def by (rule naming_start_ok)

lemma example_ports: "port_available (ns_used_ports example_naming) (ns_count example_naming) full_info"
  by (simp add: port_available_def full_info_def example_info_def NAMING_SERVER_PORT_def MAX_SS_def)

lemma example_can_register: "can_register example_rows example_news full_info example_naming"
proof -
  let ?l = "createLRU (\<lambda>_. None) 20 0 1 2 hashmap_create 3"
  have "lru_rep ?l []" by (rule createLRU_rep) simp
  then have "lru_rep_at (overwrite_rows example_rows (si_paths full_info) ?l) []"
    by (auto simp: lru_rep_def lru_rep_at_def lru_list_def overwrite_rows_def node_of_def)
  then have "lru_rep (overwrite_rows example_rows (si_paths full_info) ?l) []" by (auto simp: lru_rep_def)
  moreover have "memory_ready example_rows example_news ?l"
    by (simp add: memory_ready_def example_rows_def example_news_def MAX_ACC_PATHS_def createLRU_def)
  moreover have "plain_map hashmap_create" using entries_create by (simp add: plain_map_def)
  ultimately show ?thesis
    using full_info_ok
    by (auto simp: can_register_def MAX_SS_def createLRU_def full_info_def example_info_def plain_def is_space_def
        list_all_iff)
qed


theorem registration_refused_witness:
  "\<exists>wn ws. accept_connection example_rows example_news 0 [] 4
      (feed 4 (sends 5 (new_events fresh_storage ws)) example_naming) = Done () wn \<and>
     introduce (full_info\<lparr>si_client_port := 8989\<rparr>) 5
      (feed 5 (sends 4 (new_events example_naming wn)) fresh_storage) = Exited ws \<and>
     ns_count wn = 0 \<and> ns_paths wn = hashmap_create"
proof -
  let ?si = "full_info\<lparr>si_client_port := 8989\<rparr>"
  have "info_ok ?si" using full_info_ok by (simp add: info_ok_def)
  moreover have "\<not> port_available (ns_used_ports example_naming) (ns_count example_naming) ?si"
    by (simp add: port_available_def NAMING_SERVER_PORT_def)
  ultimately show ?thesis
    using registration_refused [OF example_naming_ok, of ?si fresh_storage example_rows example_news 0 "[]" 4 5]
    by (simp add: fresh_storage_def) blast
qed

text \<open>A naming server at which the example server has registered.\<close>

lemma registered_naming:
  "\<exists>wn. naming_reachable wn \<and> servers wn = [full_info] \<and> get_value (ns_paths wn) ''/a.txt'' = Inr 0 \<and>
     get_value (ns_paths wn) ''/d'' = Inr 0 \<and> get_value (ns_paths wn) ''/e/notes.txt'' = Inr 0 \<and>
     server_info 0 wn = Done full_info wn \<and> plain_map (ns_paths wn) \<and> w_send_ok wn = []"
proof -
  from register_law [OF example_naming_ok example_can_register example_ports, of fresh_storage 4 0 "[]" 5]
  obtain wn ws where w: "talk 4 (accept_connection example_rows example_news 0 [] 4) example_naming
      5 (introduce full_info 5) fresh_storage () wn () ws"
    "servers wn = [full_info]" "get_value (ns_paths wn) ''/a.txt'' = Inr 0" "get_value (ns_paths wn) ''/d'' = Inr 0"
    "get_value (ns_paths wn) ''/e/notes.txt'' = Inr 0" "plain_map (ns_paths wn)" "w_send_ok wn = []"
    by (auto simp: fresh_storage_def full_info_def)
  let ?w = "feed 4 (sends 5 (new_events fresh_storage ws)) example_naming"
  have "naming_reachable ?w"
    unfolding example_naming_def by (rule naming_reachable.step [OF naming_reachable.init outside]) (simp add: feed_def)
  moreover have "accept_connection example_rows example_news 0 [] 4 ?w = Done () wn" using w(1) by (simp add: talk_def)
  ultimately have r: "naming_reachable wn" by (blast intro: naming_reachable.step accept)
  have "ns_infos wn ! 0 = full_info" using w(2) by (cases "ns_infos wn"; cases "ns_count wn") auto
  then have "server_info 0 wn = Done full_info wn" by (simp add: server_info_def io_simps MAX_SS_def)
  with r w show ?thesis by blast
qed

section \<open>Reachable states\<close>

text \<open>
  Claim C8. In every state the naming server can reach, whatever clients and storage servers send and
  however their turns are interleaved: a lookup of a path fails or gives the number of a
  registered storage server, so that the table of servers is never read outside of its filled
  part; at most \<^verbatim>\<open>MAX_SS\<close> servers are registered; and no two of them share a port or use the
  naming server's.
\<close>

theorem naming_tables_consistent:
  assumes "naming_reachable w"
  shows "(get_value (ns_paths w) p = Inr n \<longrightarrow> n = - 1 \<or>
      0 \<le> n \<and> nat n < length (servers w) \<and> server_info n w = Done (servers w ! nat n) w) \<and>
    length (servers w) = ns_count w \<and> ns_count w \<le> MAX_SS \<and> servers_disjoint (servers w)"
proof (intro conjI impI)
  have ok: "naming_ok w" using assms by (rule naming_reachable_ok)
  then show len: "length (servers w) = ns_count w" and "ns_count w \<le> MAX_SS" and "servers_disjoint (servers w)"
    by (auto simp: naming_ok_def)
  assume "get_value (ns_paths w) p = Inr n"
  then have "n = - 1 \<or> 0 \<le> n \<and> n < int (ns_count w)"
    using paths_ok_get [of "ns_count w" "ns_paths w" p n] ok by (auto simp: naming_ok_def)
  then show "n = - 1 \<or> 0 \<le> n \<and> nat n < length (servers w) \<and> server_info n w = Done (servers w ! nat n) w"
    using len ok by (auto simp: server_info_def io_simps naming_ok_def)
qed

theorem naming_tables_consistent_witness:
  "\<exists>w. naming_reachable w \<and> get_value (ns_paths w) ''/a.txt'' = Inr 0 \<and> server_info 0 w = Done full_info w"
proof -
  obtain wn where w: "naming_reachable wn" "get_value (ns_paths wn) ''/a.txt'' = Inr 0" "servers wn = [full_info]"
    using registered_naming by blast
  from naming_tables_consistent [OF w(1), of "''/a.txt''" 0] w show ?thesis by (intro exI [of _ wn]) auto
qed

end
