(* ===== verification/Storage_System.thy ===== *)
theory Storage_System
  imports Transfers Io_Hoare
begin

text \<open>
  The storage server as a system: its two port threads serve one connection after the other. The
  semaphores of a file are taken and given back within one connection, so that between two
  connections every file is idle and no connection ever waits for a semaphore.
\<close>

section \<open>Idle files\<close>

text \<open>The semaphores of a file are not initialised, or nobody holds them.\<close>

definition idle :: "int \<Rightarrow> 'z storage_scheme \<Rightarrow> bool" where
  "idle i w \<longleftrightarrow>
     ss_semaphores w i = None \<and> ss_semlocks w i = None \<or>
     ss_semaphores w i = Some 1 \<and> ss_semlocks w i = Some 1 \<and> ss_reader_count w i = 0"

definition all_idle :: "'z storage_scheme \<Rightarrow> bool" where
  "all_idle w \<longleftrightarrow> (\<forall>i. idle i w)"

text \<open>File \<open>i\<close> is in use, with these values, and the others are idle.\<close>

definition in_use :: "int \<Rightarrow> nat \<Rightarrow> nat \<Rightarrow> int \<Rightarrow> 'z storage_scheme \<Rightarrow> bool" where
  "in_use i a b n w \<longleftrightarrow> has_sems i a b n w \<and> (\<forall>j. j \<noteq> i \<longrightarrow> idle j w)"

lemma storage_more: "world.more w = world.more w' \<Longrightarrow> ss_semaphores w = ss_semaphores w' \<and>
    ss_semlocks w = ss_semlocks w' \<and> ss_reader_count w = ss_reader_count w' \<and>
    ss_path_to_sem w = ss_path_to_sem w' \<and> ss_associated_files w = ss_associated_files w'"
  by (cases w, cases w') simp

lemma all_idle_internal [simp]: "internal all_idle"
  unfolding internal_def all_idle_def idle_def using storage_more by metis

lemma in_use_internal [simp]: "internal (in_use i a b n)"
  unfolding internal_def in_use_def idle_def has_sems_def using storage_more by metis

lemma in_use_put: "in_use i a b n w \<Longrightarrow> in_use i a' b' n' (put_sems i a' b' n' w)"
  by (auto simp: in_use_def idle_def has_sems_def put_sems_def)

lemma in_use_idle: "in_use i 1 1 0 w \<Longrightarrow> all_idle w"
  by (auto simp: in_use_def all_idle_def idle_def has_sems_def)

text \<open>Taking a semaphore of an idle file: it is one that nobody holds, or the run faults.\<close>

lemma idle_cases:
  assumes "all_idle w"
  obtains "ss_semaphores w i = None" "ss_semlocks w i = None"
  | "\<not> (0 \<le> i \<and> i < int MAX_ASSOCIATED_FILES)"
  | "in_use i 1 1 0 w"
proof -
  have "idle i w" and others: "\<forall>j. j \<noteq> i \<longrightarrow> idle j w" using assms by (simp_all add: all_idle_def)
  then show thesis using that unfolding idle_def [of i] in_use_def has_sems_def by blast
qed

lemma reader_enter_triple: "triple all_idle (reader_enter i) (\<lambda>_. in_use i 0 1 1) B"
proof (rule tripleI)
  fix w :: "'a storage_scheme" assume "all_idle w"
  then show "post (\<lambda>_. in_use i 0 1 1) B (reader_enter i w)"
  proof (cases rule: idle_cases [of w i])
    case 3
    then have "reader_enter i w = Done () (put_sems i 0 1 1 w)"
      by (intro reader_enter_idle) (simp add: in_use_def)
    with in_use_put [OF 3] show ?thesis by simp
  qed (auto simp: reader_enter_def sem_wait_def io_bind_def)
qed

lemma reader_leave_triple: "triple (in_use i 0 1 1) (reader_leave i) (\<lambda>_. all_idle) B"
proof (rule tripleI)
  fix w :: "'a storage_scheme" assume w: "in_use i 0 1 1 w"
  then have "reader_leave i w = Done () (put_sems i 1 1 0 w)"
    by (intro reader_leave_single) (simp add: in_use_def)
  with in_use_idle [OF in_use_put [OF w]] show "post (\<lambda>_. all_idle) B (reader_leave i w)" by simp
qed

lemma wait_semaphore_triple: "triple all_idle (wait_semaphore i) (\<lambda>_. in_use i 0 1 0) B"
proof (rule tripleI)
  fix w :: "'a storage_scheme" assume "all_idle w"
  then show "post (\<lambda>_. in_use i 0 1 0) B (wait_semaphore i w)"
  proof (cases rule: idle_cases [of w i])
    case 3
    then have "wait_semaphore i w = Done () (put_sems i 0 1 0 w)"
      using sem_runs(1) [of i 1 1 0 w] by (simp add: in_use_def)
    with in_use_put [OF 3] show ?thesis by simp
  qed (auto simp: sem_wait_def)
qed

lemma post_semaphore_triple: "triple (in_use i 0 1 0) (post_semaphore i) (\<lambda>_. all_idle) B"
proof (rule tripleI)
  fix w :: "'a storage_scheme" assume w: "in_use i 0 1 0 w"
  then have "post_semaphore i w = Done () (put_sems i 1 1 0 w)"
    using sem_runs(3) [of i 0 1 0 w] by (simp add: in_use_def)
  with in_use_idle [OF in_use_put [OF w]] show "post (\<lambda>_. all_idle) B (post_semaphore i w)" by simp
qed

section \<open>The transfers\<close>

lemma keeps_send_chunks [keeps_intros]:
  "internal I \<Longrightarrow> waiting s B \<Longrightarrow> keeps I B (send_chunks s cs)"
  by (induction cs) (simp_all add: keeps_intros)

lemma keeps_send_all [keeps_intros]: "internal I \<Longrightarrow> keeps I B (send_all s cs)"
  by (induction cs) (simp_all add: keeps_intros)

lemma keeps_receive_args [keeps_intros]:
  "internal I \<Longrightarrow> waiting s B \<Longrightarrow> keeps I B (receive_args s n)"
  by (induction n) (simp_all add: keeps_intros)

lemma keeps_write_loop [keeps_intros]:
  assumes "internal I" and "waiting s B"
  shows "keeps I B (write_loop s name)"
proof (rule keepsI)
  fix w assume "I w"
  then show "post (\<lambda>_. I) B (write_loop s name w)"
    using assms(2)
  proof (induction s name w rule: write_loop.induct)
    case (1 s name w)
    show ?case
      apply (subst write_loop.simps)
      apply (rule post_step [where I = I])
        apply (simp add: assms(1) "1.prems" keeps_intros)
       apply (rule "1.prems")
      apply (rule post_step [where I = I])
        apply (simp add: assms(1) keeps_intros)
       apply assumption
      apply (rule post_step [where I = I])
        apply (simp add: keeps_intros)
       apply assumption
      apply (rule post_if_value)
       apply (simp add: io_simps)
      apply (rule post_step [where I = I])
        apply (simp add: assms(1) keeps_intros)
       apply assumption
      apply (rule "1.IH")
      by (assumption | rule "1.prems")+
  qed
qed

lemma keeps_receive_loop [keeps_intros]:
  assumes "internal I" and "waiting s B"
  shows "keeps I B (receive_loop s name)"
proof (rule keepsI)
  fix w assume "I w"
  then show "post (\<lambda>_. I) B (receive_loop s name w)"
    using assms(2)
  proof (induction s name w rule: receive_loop.induct)
    case (1 s name w)
    show ?case
      apply (subst receive_loop.simps)
      apply (rule post_step [where I = I])
        apply (simp add: assms(1) "1.prems" keeps_intros)
       apply (rule "1.prems")
      apply (rule post_step [where I = I])
        apply (simp add: keeps_intros)
       apply assumption
      apply (rule post_if_value)
       apply (simp add: io_simps)
      apply (rule post_step [where I = I])
        apply (simp add: assms(1) keeps_intros)
       apply assumption
      apply (rule "1.IH")
      by (assumption | rule "1.prems")+
  qed
qed

lemma triple_keeps_bind:
  "triple P m (\<lambda>_. R) B \<Longrightarrow> (\<And>x. triple R (f x) Q B) \<Longrightarrow> triple P (io_bind m f) Q B"
  by (rule triple_bind)

lemma keeps_bracket:
  assumes "triple I m (\<lambda>_. J) B" and "\<And>x. triple J (f x) (\<lambda>_. I) B"
  shows "keeps I B (io_bind m f)"
  unfolding keeps_def using assms by (rule triple_keeps_bind)

lemma triple_io_exit [simp]: "triple P io_exit Q B"
  by (simp add: triple_def io_simps)

lemma keeps_read_file [keeps_intros]:
  assumes "waiting s B"
  shows "keeps all_idle B (read_file s path i)"
  unfolding read_file_def
proof (rule keeps_bracket [OF reader_enter_triple], rule triple_keeps_bind [OF triple_keeps [OF keeps_open_read]])
  fix file_read
  show "triple (in_use i 0 1 1) (case file_read of None \<Rightarrow> io_exit | Some content \<Rightarrow>
      io_bind (send_chunks s (chunks content)) (\<lambda>_.
      io_bind (send_or_exit s STOP_packet) (\<lambda>_.
      io_bind (reader_leave i) (\<lambda>_. close_socket s)))) (\<lambda>_. all_idle) B"
  proof (cases file_read)
    case (Some content)
    show ?thesis
      unfolding Some option.case
      by (intro triple_keeps_bind [OF triple_keeps [OF keeps_send_chunks]]
          triple_keeps_bind [OF triple_keeps [OF keeps_send_or_exit]]
          triple_keeps_bind [OF reader_leave_triple] triple_keeps [OF keeps_close_socket]
          in_use_internal all_idle_internal assms)
  qed simp
qed

lemma keeps_write_to_file [keeps_intros]:
  assumes "waiting s B"
  shows "keeps all_idle B (write_to_file s path i)"
  unfolding write_to_file_def
proof (rule keeps_bind [OF keeps_open_write [OF all_idle_internal]], rule keeps_if [OF keeps_exit])
  show "keeps all_idle B (io_bind (wait_semaphore i) (\<lambda>_.
      io_bind (write_loop s (''.'' @ path)) (\<lambda>_. io_bind (post_semaphore i) (\<lambda>_. close_socket s))))"
    by (rule keeps_bracket [OF wait_semaphore_triple],
        intro triple_keeps_bind [OF triple_keeps [OF keeps_write_loop]]
          triple_keeps_bind [OF post_semaphore_triple] triple_keeps [OF keeps_close_socket]
          in_use_internal all_idle_internal assms)
qed

lemma keeps_run_command [keeps_intros]: "internal I \<Longrightarrow> keeps I B (run_command exec cmd)"
  by (erule keeps_internal) (simp add: run_command_def split: option.split prod.split)

lemma keeps_system [keeps_intros]: "internal I \<Longrightarrow> keeps I B (system exec line)"
  by (simp add: system_def keeps_intros)

lemma all_idle_update: "keeps all_idle B (io_update (ss_path_to_sem_update f))"
  "keeps all_idle B (io_update (ss_associated_files_update g))"
  by (rule keeps_update, simp add: all_idle_def idle_def)+

lemma keeps_readServerSide [keeps_intros]: "waiting s B \<Longrightarrow> keeps all_idle B (readServerSide args n s)"
  unfolding readServerSide_def by (intro keeps_intros)

lemma keeps_writeServerSide [keeps_intros]: "waiting s B \<Longrightarrow> keeps all_idle B (writeServerSide args n s)"
  unfolding writeServerSide_def by (intro keeps_intros)

lemma keeps_fileDetails [keeps_intros]:
  "internal I \<Longrightarrow> waiting s B \<Longrightarrow> keeps I B (fileDetailsServerSide stat args n s)"
  unfolding fileDetailsServerSide_def get_file_details_def by (intro keeps_intros)

lemma keeps_runSend [keeps_intros]: "internal I \<Longrightarrow> keeps I B (runSend exec args n s)"
  unfolding runSend_def send_file_def Let_def by (intro keeps_intros)

lemma keeps_runReceive [keeps_intros]: "internal I \<Longrightarrow> waiting s B \<Longrightarrow> keeps I B (runReceive exec args n s)"
  unfolding runReceive_def receive_file_def Let_def by (intro keeps_intros)

lemma keeps_runCreate [keeps_intros]: "keeps all_idle B (runCreate exec args n)"
  unfolding runCreate_def create_def Let_def by (intro keeps_intros all_idle_update all_idle_internal)

lemma keeps_runDelete [keeps_intros]: "keeps all_idle B (runDelete exec args n)"
  unfolding runDelete_def deleteItem_def Let_def by (intro keeps_intros all_idle_update all_idle_internal)

lemma keeps_serve_connection:
  "waiting s B \<Longrightarrow> keeps all_idle B (serve_connection exec stat np cp junk port s)"
  unfolding serve_connection_def execCommand_def execClientCommand_def Let_def
  by (intro keeps_intros all_idle_internal)

section \<open>The system\<close>

text \<open>
  The thread of each port serves a connection that was accepted, in one step; in between the outside
  world moves. The two ports are those the server was started with.
\<close>

inductive storage_step :: "runner \<Rightarrow> stats \<Rightarrow> int \<Rightarrow> int \<Rightarrow> storage \<Rightarrow> storage \<Rightarrow> bool"
  for exec :: runner and stat :: stats and np cp :: int where
  naming_port: "serve_connection exec stat np cp junk np s w = Done () w' \<Longrightarrow> storage_step exec stat np cp w w'"
| client_port: "serve_connection exec stat np cp junk cp s w = Done () w' \<Longrightarrow> storage_step exec stat np cp w w'"
| outside: "world.more w' = world.more w \<Longrightarrow> storage_step exec stat np cp w w'"

text \<open>Before \<^verbatim>\<open>main\<close> runs no semaphore is initialised.\<close>

inductive storage_reachable :: "runner \<Rightarrow> stats \<Rightarrow> int \<Rightarrow> int \<Rightarrow> storage \<Rightarrow> bool"
  for exec :: runner and stat :: stats and np cp :: int where
  init: "ss_semaphores w = (\<lambda>_. None) \<Longrightarrow> ss_semlocks w = (\<lambda>_. None) \<Longrightarrow>
    storage_main np cp root listing choices junk_rows w = Done () w' \<Longrightarrow> storage_reachable exec stat np cp w'"
| step: "storage_reachable exec stat np cp w \<Longrightarrow> storage_step exec stat np cp w w' \<Longrightarrow>
    storage_reachable exec stat np cp w'"

lemma keeps_register_file [keeps_intros]: "keeps all_idle B (register_file name)"
  unfolding register_file_def
  by (intro keeps_bind keeps_get keeps_lift keeps_update) (simp add: all_idle_def idle_def)

lemma keeps_choose_files [keeps_intros]: "keeps all_idle B (choose_files files choices i rows)"
  by (induction files choices i rows rule: choose_files.induct) (auto simp: Let_def intro!: keeps_intros)

lemma keeps_introduce [keeps_intros]: "internal I \<Longrightarrow> keeps I (\<lambda>_. True) (introduce si s)"
  unfolding introduce_def by (intro keeps_intros waiting_True)

lemma keeps_storage_main: "keeps all_idle (\<lambda>_. True) (storage_main np cp root listing choices junk_rows)"
  unfolding storage_main_def
  by (intro keeps_intros all_idle_update all_idle_internal)

lemma storage_step_idle: "storage_step exec stat np cp w w' \<Longrightarrow> all_idle w \<Longrightarrow> all_idle w'"
proof (induction rule: storage_step.induct)
  case (naming_port junk s w w')
  then show ?case
    using keepsD [OF keeps_serve_connection [OF waiting_True], of w exec stat np cp junk np s] by simp
next
  case (client_port junk s w w')
  then show ?case
    using keepsD [OF keeps_serve_connection [OF waiting_True], of w exec stat np cp junk cp s] by simp
next
  case (outside w' w)
  then show ?case using internalD [OF all_idle_internal] by blast
qed

lemma storage_reachable_idle: "storage_reachable exec stat np cp w \<Longrightarrow> all_idle w"
proof (induction rule: storage_reachable.induct)
  case (init w root listing choices junk_rows w')
  then have "all_idle w" by (simp add: all_idle_def idle_def)
  with init show ?case using keepsD [OF keeps_storage_main, of w np cp root listing choices junk_rows] by simp
qed (blast intro: storage_step_idle)

text \<open>
  Claim C9. In every state a storage server can reach between two connections, whatever naming server
  and clients sent, no semaphore is held and no reader is counted; so while it serves a
  connection on either port it never waits for a semaphore: when it waits, it waits for the next
  packet on that connection.
\<close>

theorem waits_only_for_packets:
  assumes "storage_reachable exec stat np cp w"
  shows "(ss_semaphores w i = None \<and> ss_semlocks w i = None \<or>
      ss_semaphores w i = Some 1 \<and> ss_semlocks w i = Some 1 \<and> ss_reader_count w i = 0) \<and>
    (serve_connection exec stat np cp junk port s w = Blocked w' \<longrightarrow> w_in w' s = [])"
proof (intro conjI impI)
  have idle: "all_idle w" using assms by (rule storage_reachable_idle)
  then show "ss_semaphores w i = None \<and> ss_semlocks w i = None \<or>
      ss_semaphores w i = Some 1 \<and> ss_semlocks w i = Some 1 \<and> ss_reader_count w i = 0"
    unfolding all_idle_def idle_def by blast
  assume "serve_connection exec stat np cp junk port s w = Blocked w'"
  with keepsD [OF keeps_serve_connection [OF waiting_self] idle, of s exec stat np cp junk port]
  show "w_in w' s = []" by simp
qed

text \<open>A storage server that was started with one file, and is waiting for the first packet of a client.\<close>

lemma register_file_world:
  "register_file name w = Done u w' \<Longrightarrow>
     w_in w' = w_in w \<and> w_connect w' = w_connect w \<and> w_next w' = w_next w \<and> w_send_ok w' = w_send_ok w \<and>
     w_files w' = w_files w \<and> w_locked w' = w_locked w"
  by (cases "set_value (ss_path_to_sem w) name (ss_associated_files w)")
     (auto simp: register_file_def io_simps)

abbreviation answers :: "string option list" where
  "answers \<equiv> [Some (buffer MAX_BUFFER_SIZE ''hello''), Some (buffer MAX_BUFFER_SIZE ''ACK'')]"

lemma introduce_ACK:
  assumes "w_send_ok w = []" and "w_in w c = answers"
  shows "\<exists>es. introduce si c w = Done () (emit es (set_in c [] w))"
proof -
  have "buffer_string MAX_BUFFER_SIZE (buffer MAX_BUFFER_SIZE ''ACK'') = Inr ''ACK''"
    by (rule buffer_string_buffer) (simp_all add: NUL_def MAX_BUFFER_SIZE_def)
  with assms show ?thesis by (auto simp: introduce_def io_simps run_simps)
qed

lemma started_storage:
  "\<exists>w. storage_reachable exec stat 5000 5001 w \<and> serves w ''/a.txt'' 0 \<and> has_sems 0 1 1 0 w \<and>
     w_send_ok w = [] \<and> w_in w = (\<lambda>_. []) \<and> w_files w = w_files fresh_storage \<and> w_locked w = (\<lambda>_. False)"
proof -
  let ?w0 = "fresh_storage\<lparr>w_connect := [Some answers]\<rparr>"
  have "storage_ok ?w0" "ss_associated_files ?w0 = 0"
    using fresh_storage(1) by (simp_all add: storage_ok_def fresh_storage_def)
  with register_file_law [of ?w0 "''/a.txt''"] obtain w1 where
    w1: "register_file ''/a.txt'' ?w0 = Done () w1" "serves w1 ''/a.txt'' 0" "has_sems 0 1 1 0 w1"
    by (auto simp: plain_def is_space_def MAX_ASSOCIATED_FILES_def)
  have world: "w_connect w1 = [Some answers]" "w_send_ok w1 = []" "w_in w1 = (\<lambda>_. [])"
    "w_files w1 = w_files fresh_storage" "w_locked w1 = (\<lambda>_. False)"
    using register_file_world [OF w1(1)] by (simp_all add: fresh_storage_def)
  let ?rows = "(replicate 15 [])[0 := ''/a.txt'']"
  let ?si = "\<lparr>si_ip = ''127.0.0.1'', si_naming_port = 5000, si_client_port = 5001, si_paths = ?rows\<rparr>"
  let ?s = "w_next w1"
  obtain w2 where w2: "open_socket ''127.0.0.1'' NAMING_SERVER_PORT w1 = Done ?s w2" "w_in w2 ?s = answers"
    "world.more w2 = world.more w1" "w_send_ok w2 = []" "w_in w2 = (w_in w1)(?s := answers)"
    "w_files w2 = w_files w1" "w_locked w2 = w_locked w1"
    using world by (simp add: open_socket_def happens_def Let_def)
  from introduce_ACK [OF w2(4,2), of ?si] obtain es where
    es: "introduce ?si ?s w2 = Done () (emit es (set_in ?s [] w2))" by blast
  have same: "?w0\<lparr>ss_path_to_sem := hashmap_create, ss_associated_files := 0\<rparr> = ?w0"
    by (simp add: fresh_storage_def)
  have "getFiles ''/r'' ''/r'' [Plain ''a.txt''] [] = Inr [''/a.txt'']"
    by (simp add: strcaseeq_def to_lower_def Let_def)
  moreover have "choose_files [''/a.txt''] [1] 0 ((replicate 15 [])[0 := ''/home/'']) ?w0 = Done ?rows w1"
    using w1(1) by (simp add: io_simps Let_def)
  ultimately have "storage_main 5000 5001 ''/r'' [Plain ''a.txt''] [1] (replicate 15 []) ?w0 =
      Done () (emit es (set_in ?s [] w2))"
    using same w2(1) es by (simp add: storage_main_def io_simps del: getFiles.simps choose_files.simps)
  then have reach: "storage_reachable exec stat 5000 5001 (emit es (set_in ?s [] w2))"
    by (rule storage_reachable.init [rotated 2]) (simp_all add: fresh_storage_def)
  have more: "world.more (emit es (set_in ?s [] w2)) = world.more w1" using w2(3) by (simp add: emit_def set_in_def)
  then have "serves (emit es (set_in ?s [] w2)) ''/a.txt'' 0" "has_sems 0 1 1 0 (emit es (set_in ?s [] w2))"
    using w1(2,3) storage_more [OF more] by (simp_all add: serves_def has_sems_def)
  then show ?thesis
    using reach world w2 by (intro exI [of _ "emit es (set_in ?s [] w2)"]) (auto simp: set_in_def emit_def)
qed

theorem waits_only_for_packets_witness:
  "\<exists>w w'. storage_reachable (\<lambda>cmd fs. None) (\<lambda>_. None) 5000 5001 w \<and> serves w ''/a.txt'' 0 \<and> has_sems 0 1 1 0 w \<and>
     serve_connection (\<lambda>cmd fs. None) (\<lambda>_. None) 5000 5001 0 5001 7 w = Blocked w' \<and> w_in w' 7 = []"
proof -
  obtain w where w: "storage_reachable (\<lambda>cmd fs. None) (\<lambda>_. None) 5000 5001 w" "serves w ''/a.txt'' 0" "has_sems 0 1 1 0 w"
    "w_in w = (\<lambda>_. [])" using started_storage by blast
  then have "serve_connection (\<lambda>cmd fs. None) (\<lambda>_. None) 5000 5001 0 5001 7 w = Blocked w"
    by (simp add: serve_connection_def recv_or_exit_def recv_def io_simps)
  with waits_only_for_packets [OF w(1), of 0 0 5001 7 w] w show ?thesis by blast
qed

end
