(* ===== verification/Sessions.thy ===== *)
theory Sessions
  imports Registration_Protocol Storage_System
begin

text \<open>
  Whole commands: a line typed at the client, through the naming server, to the storage server and
  back. The three programs are run on the packets that they send to each other.
\<close>

section \<open>More changes of the world\<close>

definition set_stdin :: "string list \<Rightarrow> 'z world_scheme \<Rightarrow> 'z world_scheme" where
  "set_stdin ls w = w\<lparr>w_stdin := ls\<rparr>"

definition set_connect :: "string option list option list \<Rightarrow> nat \<Rightarrow> 'z world_scheme \<Rightarrow> 'z world_scheme" where
  "set_connect cs n w = w\<lparr>w_connect := cs, w_next := n\<rparr>"

lemma set_stdin_fields [simp]:
  "w_in (set_stdin ls w) = w_in w" "w_send_ok (set_stdin ls w) = w_send_ok w"
  "w_files (set_stdin ls w) = w_files w" "w_events (set_stdin ls w) = w_events w"
  "w_stdin (set_stdin ls w) = ls" "w_connect (set_stdin ls w) = w_connect w" "w_next (set_stdin ls w) = w_next w"
  by (simp_all add: set_stdin_def)

lemma set_connect_fields [simp]:
  "w_in (set_connect cs n w) = w_in w" "w_send_ok (set_connect cs n w) = w_send_ok w"
  "w_files (set_connect cs n w) = w_files w" "w_events (set_connect cs n w) = w_events w"
  "w_stdin (set_connect cs n w) = w_stdin w" "w_connect (set_connect cs n w) = cs" "w_next (set_connect cs n w) = n"
  by (simp_all add: set_connect_def)

lemma connect_fields [simp]:
  "w_connect (emit es w) = w_connect w" "w_next (emit es w) = w_next w"
  "w_connect (set_in s q w) = w_connect w" "w_next (set_in s q w) = w_next w"
  by (simp_all add: emit_def set_in_def)

lemma stdin_connect_normal [simp]:
  "set_stdin ls (emit es w) = emit es (set_stdin ls w)" "set_stdin ls (set_in s q w) = set_in s q (set_stdin ls w)"
  "set_connect cs n (emit es w) = emit es (set_connect cs n w)"
  "set_connect cs n (set_in s q w) = set_in s q (set_connect cs n w)"
  "set_connect cs n (set_stdin ls w) = set_stdin ls (set_connect cs n w)"
  "set_stdin ls (set_stdin ls' w) = set_stdin ls w" "set_connect cs n (set_connect cs' n' w) = set_connect cs n w"
  by (simp_all add: set_stdin_def set_connect_def emit_def set_in_def)

lemma replicate_2 [simp]: "replicate 2 x = [x, x]"
  by (simp add: numeral_2_eq_2)

lemma fgets_run [run_simps]:
  "w_stdin w = l # ls \<Longrightarrow> length l < n \<Longrightarrow> fgets n w = Done (Some l) (set_stdin ls w)"
  by (simp add: fgets_def set_stdin_def)

lemma open_socket_run [run_simps]:
  "w_connect w = Some q # cs \<Longrightarrow> open_socket ip port w =
     Done (w_next w) (emit [Opened (w_next w) ip port] (set_in (w_next w) q (set_connect cs (Suc (w_next w)) w)))"
  by (simp add: open_socket_def happens_def emit_def set_in_def set_connect_def Let_def)

section \<open>Sending a command to a storage server\<close>

text \<open>The packets of a command, as client and naming server send them.\<close>

definition command_packets :: "string list \<Rightarrow> string list" where
  "command_packets as = int_bytes (int (length as)) # map (buffer PATH_MAX) as @ [big ''DONE'']"

lemma send_args_run:
  assumes "w_send_ok w = []" and "w_in w s = replicate (length as) (Some (big ''ACK'')) @ q"
  shows "send_args s as w = Done () (emit (map (\<lambda>a. Sent s (buffer PATH_MAX a)) as) (set_in s q w))"
  using assms
proof (induction as arbitrary: w)
  case Nil
  then show ?case by (simp add: io_simps set_in_same)
next
  case (Cons a as)
  let ?w = "emit [Sent s (buffer PATH_MAX a)] (set_in s (replicate (length as) (Some (big ''ACK'')) @ q) w)"
  have "send_args s (a # as) w = send_args s as ?w"
    using Cons.prems by (simp add: io_simps run_simps)
  also have "\<dots> = Done () (emit (map (\<lambda>a. Sent s (buffer PATH_MAX a)) as) (set_in s q ?w))"
    by (rule Cons.IH) (use Cons.prems in simp_all)
  finally show ?case by simp
qed

lemma ns_send_args_eq: "ns_send_args s as = send_args s as"
  by (induction as) (simp_all cong: if_cong)

text \<open>The storage server takes a command apart again.\<close>

definition argument :: "string \<Rightarrow> bool" where
  "argument a \<longleftrightarrow> NUL \<notin> set a \<and> length a < PATH_MAX"

lemma argument_packet [simp]: "argument a \<Longrightarrow> buffer_string MAX_BUFFER_SIZE (buffer PATH_MAX a) = Inr a"
  unfolding argument_def by (rule buffer_string_buffer) auto

lemma receive_args_run:
  assumes "w_send_ok w = []" and "list_all argument as"
    and "w_in w s = map (\<lambda>a. Some (buffer PATH_MAX a)) as @ q"
  shows "receive_args s (length as) w =
    Done as (emit (replicate (length as) (Sent s (big ''ACK''))) (set_in s q w))"
  using assms
proof (induction as arbitrary: w)
  case Nil
  then show ?case by (simp add: io_simps set_in_same)
next
  case (Cons a as)
  let ?w = "emit [Sent s (big ''ACK'')] (set_in s (map (\<lambda>a. Some (buffer PATH_MAX a)) as @ q) w)"
  have "receive_args s (length as) ?w =
      Done as (emit (replicate (length as) (Sent s (big ''ACK''))) (set_in s q ?w))"
    by (rule Cons.IH) (use Cons.prems in simp_all)
  moreover have "argument a" "length a < PATH_MAX" "PATH_MAX \<le> MAX_BUFFER_SIZE"
    using Cons.prems(2) by (simp_all add: argument_def MAX_BUFFER_SIZE_def)
  ultimately show ?case using Cons.prems by (simp add: io_simps run_simps)
qed

lemma ns_connect_run:
  assumes "w_send_ok w = []" and "w_connect w = Some (replicate (length as) (Some (big ''ACK'')) @ q) # cs"
    and "take n args = as" and "length as = n"
  shows "ns_connectToStorageServer ip port args n w = Done (w_next w)
    (emit (Opened (w_next w) ip port # map (Sent (w_next w)) (command_packets as))
      (set_in (w_next w) q (set_connect cs (Suc (w_next w)) w)))"
proof -
  let ?s = "w_next w"
  let ?w = "emit [Opened ?s ip port, Sent ?s (int_bytes (int (length as)))]
      (set_in ?s (replicate (length as) (Some (big ''ACK'')) @ q) (set_connect cs (Suc ?s) w))"
  have "send_args ?s as ?w = Done () (emit (map (\<lambda>a. Sent ?s (buffer PATH_MAX a)) as) (set_in ?s q ?w))"
    by (rule send_args_run) (use assms in simp_all)
  with assms show ?thesis
    by (simp add: ns_connectToStorageServer_def ns_send_args_eq io_simps run_simps command_packets_def comp_def)
qed

lemma connect_run:
  assumes "w_send_ok w = []" and "w_connect w = Some (replicate (length (words line)) (Some (big ''ACK'')) @ q) # cs"
    and "words line \<noteq> []" and "length (words line) \<le> MAX_ARGS" and "list_all argument (words line)"
  shows "connectToStorageServer ip port line w = Done (w_next w)
    (emit (Opened (w_next w) ip port # map (Sent (w_next w)) (command_packets (words line)))
      (set_in (w_next w) q (set_connect cs (Suc (w_next w)) w)))"
proof -
  let ?s = "w_next w" and ?as = "words line"
  let ?w = "emit [Opened ?s ip port, Sent ?s (int_bytes (int (length ?as)))]
      (set_in ?s (replicate (length ?as) (Some (big ''ACK'')) @ q) (set_connect cs (Suc ?s) w))"
  have "send_args ?s ?as ?w = Done () (emit (map (\<lambda>a. Sent ?s (buffer PATH_MAX a)) ?as) (set_in ?s q ?w))"
    by (rule send_args_run) (use assms in simp_all)
  moreover have "processCommand line (replicate MAX_ARGS []) =
      Inr (?as @ drop (length ?as) (replicate MAX_ARGS []), length ?as)"
    using assms(3-5) processCommand_words [of "replicate MAX_ARGS []" line]
    by (auto simp: MAX_ARGS_def list_all_iff argument_def)
  ultimately show ?thesis using assms
    by (simp add: connectToStorageServer_def io_simps run_simps command_packets_def comp_def)
qed

lemma int_received_small [simp]: "n < 2 ^ 31 \<Longrightarrow> int_received old (int_bytes (int n)) = int n"
  by (rule int_received_whole) auto

lemma serve_connection_run:
  assumes ok: "w_send_ok w = []" and as: "as \<noteq> []" "length as < 2 ^ 31" "list_all argument as"
    and input: "w_in w s = map Some (command_packets as) @ q"
  shows "serve_connection exec stat np cp junk port s w =
    io_bind
      (if port = np
       then io_bind (execCommand exec as (int (length as)) s) (\<lambda>result.
            send_or_exit s (big (if result = 1 then ''ACK'' else ''FAIL'')))
       else if port = cp
       then io_bind (execClientCommand stat as (int (length as)) s) (\<lambda>_. io_return ())
       else io_return ()) (\<lambda>_. close_socket s)
      (emit (replicate (length as) (Sent s (big ''ACK''))) (set_in s q w))"
proof -
  let ?w = "set_in s (map (\<lambda>a. Some (buffer PATH_MAX a)) as @ Some (big ''DONE'') # q) w"
  have "receive_args s (length as) ?w = Done as
      (emit (replicate (length as) (Sent s (big ''ACK''))) (set_in s (Some (big ''DONE'') # q) ?w))"
    by (rule receive_args_run) (use ok as in simp_all)
  moreover have "buffer_string MAX_BUFFER_SIZE (big ''DONE'') = Inr ''DONE''"
    by (rule big_string) (simp_all add: NUL_def MAX_BUFFER_SIZE_def)
  ultimately show ?thesis
    using assms by (simp add: serve_connection_def command_packets_def io_simps run_simps comp_def Let_def)
qed

section \<open>The client and the naming server\<close>

text \<open>What the naming server answers to READ, WRITE and DETAILS.\<close>

definition address_packets :: "int \<Rightarrow> storage_info \<Rightarrow> string list" where
  "address_packets t si = [int_bytes t, big ''FOUND'', buffer 16 (si_ip si), int_bytes (si_client_port si)]"

lemma big_FOUND [simp]: "buffer_string MAX_BUFFER_SIZE (big ''FOUND'') = Inr ''FOUND''"
  by (rule big_string) (simp_all add: NUL_def MAX_BUFFER_SIZE_def)

lemma info_ok_ip: "info_ok si \<Longrightarrow> buffer_string 16 (buffer 16 (si_ip si)) = Inr (si_ip si)"
  by (rule buffer_string_buffer) (simp_all add: info_ok_def)

lemma info_ok_port: "info_ok si \<Longrightarrow> int_received old (int_bytes (si_client_port si)) = si_client_port si"
  by (rule int_received_whole) (simp_all add: info_ok_def)

text \<open>A line that is sent: it fits the buffer and does not look like the empty line the client tests for.\<close>

definition typed :: "string \<Rightarrow> bool" where
  "typed line \<longleftrightarrow> NUL \<notin> set line \<and> length line < MAX_BUFFER_SIZE \<and> \<not> strcaseeq line (CHR 0x0A # white)"

lemma typed_string [simp]:
  "typed line \<Longrightarrow> buffer_string MAX_BUFFER_SIZE (big line) = Inr line" "typed line \<Longrightarrow> cstr line = line"
  by (simp_all add: typed_def cstr_id)

lemma client_turn_found:
  assumes "w_send_ok w = []" and "w_stdin w = line # lines" and "typed line" and "t \<in> {2, 3, 4}" and "info_ok si"
    and "w_in w ns = map Some (address_packets t si)"
  shows "client_turn ctime junk ns w =
    io_bind (connectToStorageServer (si_ip si) (si_client_port si) line) (\<lambda>s.
      io_bind (if t = 2 then readClientSide s
               else if t = 3 then writeClientSide s
               else fileDetailsClientSide ctime s) (\<lambda>result.
      io_bind (print_line (if result = 0 then ''Error'' else ''Success'')) (\<lambda>_. io_return False)))
      (emit [Sent ns (big line)] (set_in ns [] (set_stdin lines w)))"
proof -
  have "length line < MAX_BUFFER_SIZE" "\<not> strcaseeq line (CHR 0x0A # white)" using assms(3) by (simp_all add: typed_def)
  moreover have "int_received 0 (int_bytes t) = t" using assms(4) by (auto intro!: int_received_whole)
  ultimately show ?thesis
    using assms info_ok_ip [OF assms(5)] info_ok_port [OF assms(5)]
    by (auto simp: client_turn_defs address_packets_def receive_address_def io_simps run_simps Let_def)
qed

text \<open>The commands that are answered with an address, and their numbers.\<close>

definition address_command :: "string \<Rightarrow> int \<Rightarrow> bool" where
  "address_command cmd t \<longleftrightarrow>
     strcaseeq cmd ''READ'' \<and> t = 2 \<or> strcaseeq cmd ''WRITE'' \<and> t = 3 \<or> strcaseeq cmd ''DETAILS'' \<and> t = 4"

text \<open>A client thread that waits for the next command.\<close>

definition rows_ready :: "string list \<Rightarrow> string list \<Rightarrow> bool" where
  "rows_ready rows as \<longleftrightarrow> as \<noteq> [] \<and> length as \<le> length rows \<and> list_all argument as"

lemma processCommand_ready:
  "rows_ready rows (words line) \<Longrightarrow>
   processCommand line rows = Inr (words line @ drop (length (words line)) rows, length (words line))"
  using processCommand_words [of rows line] by (cases rows) (auto simp: rows_ready_def list_all_iff argument_def)

lemma strcaseeq_trans: "strcaseeq a b \<Longrightarrow> strcaseeq a c \<Longrightarrow> strcaseeq b c"
  by (simp add: strcaseeq_def)

lemma naming_turn_address:
  assumes ok: "w_send_ok w = []" and line: "typed line" "words line = cmd # path # rest" "rows_ready rows (words line)"
    and cmd: "address_command cmd t"
    and get: "get_value (ns_paths w) path = Inr n" "0 \<le> n" "server_info n w = Done si w"
    and input: "w_in w c = Some (big line) # q"
  shows "client_handler_turn c rows w =
    Done (words line @ drop (length (words line)) rows, False)
      (emit (map (Sent c) (address_packets t si)) (set_in c q w))"
proof -
  have info: "server_info n (emit es (set_in c q w)) = Done si (emit es (set_in c q w))" for es
    using get(3) by (simp add: server_info_def io_simps split: if_splits)
  have not: "\<not> strcaseeq cmd ''CREATE''" "\<not> strcaseeq cmd ''DELETE''" "\<not> strcaseeq cmd ''COPY''"
    "t = 4 \<Longrightarrow> \<not> strcaseeq cmd ''READ'' \<and> \<not> strcaseeq cmd ''WRITE''" "t = 3 \<Longrightarrow> \<not> strcaseeq cmd ''READ''"
    using cmd by (auto simp: address_command_def strcaseeq_def to_lower_def)
  show ?thesis
    using cmd not get info line(1,2) ok input processCommand_ready [OF line(3)]
    by (auto simp: client_handler_turn_defs send_address_def path_server_def reply_def address_packets_def
        address_command_def io_simps run_simps)
qed

section \<open>READ\<close>

lemma readClientSide_run:
  assumes "w_send_ok w = []" and "transferable content" and "w_in w c = map Some (chunks content @ [STOP_packet]) @ q"
  shows "readClientSide c w = Done 1 (emit (read_events c (chunks content) @ [Closed c]) (set_in c q w))"
proof -
  have "read_loop c w = Done True (emit (read_events c (chunks content)) (set_in c q w))"
    by (rule read_loop_run) (use assms transferable_packets in simp_all)
  then show ?thesis by (simp add: readClientSide_def io_simps run_simps)
qed

lemma readServerSide_run:
  assumes ok: "w_send_ok w = []" and s: "serves w path i" and sems: "has_sems i 1 1 0 w"
    and content: "w_files w (''.'' @ path) = Some (File content)"
    and acks: "w_in w s = replicate (length (chunks content)) (Some ACK_packet) @ q"
  shows "readServerSide [cmd, path] 2 s w =
    Done 1 (emit (map (Sent s) (chunks content) @ [Sent s STOP_packet, Closed s]) (set_in s q w))"
  using read_file_run [OF ok content sems acks] serves_get [OF s] s
  by (simp add: readServerSide_def io_simps serves_def)

text \<open>
  Three programs, each run on the packets that the others sent to it: the client is connected to the
  naming server and then opens a connection to the storage server.
\<close>

definition session ::
  "nat \<Rightarrow> ('x world_scheme, 'a) io \<Rightarrow> 'x world_scheme \<Rightarrow> nat \<Rightarrow> ('y world_scheme, 'b) io \<Rightarrow> 'y world_scheme \<Rightarrow>
   nat \<Rightarrow> ('z world_scheme, 'c) io \<Rightarrow> 'z world_scheme \<Rightarrow>
   'a \<Rightarrow> 'x world_scheme \<Rightarrow> 'b \<Rightarrow> 'y world_scheme \<Rightarrow> 'c \<Rightarrow> 'z world_scheme \<Rightarrow> bool" where
  "session ns client wc c naming wn s storage ws rc vc rn vn rs vs \<longleftrightarrow>
     client (feed ns (sends c (new_events wn vn))
       (set_connect [Some (map Some (sends s (new_events ws vs)))] (w_next wc) wc)) = Done rc vc \<and>
     naming (feed c (sends ns (new_events wc vc)) wn) = Done rn vn \<and>
     storage (feed s (sends (w_next wc) (new_events wc vc)) ws) = Done rs vs"

lemma sends_other [simp]: "s \<noteq> t \<Longrightarrow> sends t (map (Sent s) cs) = []"
  "s \<noteq> t \<Longrightarrow> sends t (read_events s ps) = []"
proof -
  show "s \<noteq> t \<Longrightarrow> sends t (map (Sent s) cs) = []" by (induction cs) auto
  show "s \<noteq> t \<Longrightarrow> sends t (read_events s ps) = []" by (induction ps) auto
qed

lemma prints_sent [simp]: "prints (map (Sent s) cs) = []" "prints (map (Sent s \<circ> f) xs) = []"
proof -
  show "prints (map (Sent s) cs) = []" for cs by (induction cs) auto
  from this [of "map f xs"] show "prints (map (Sent s \<circ> f) xs) = []" by simp
qed

text \<open>The storage server that a path leads to serves it, on the port it registered.\<close>

text \<open>A line as it is typed: words with one space between them.\<close>

fun line_of :: "string list \<Rightarrow> string" where
  "line_of [] = [CHR 0x0A]"
| "line_of [a] = a @ [CHR 0x0A]"
| "line_of (a # as) = a @ '' '' @ line_of as"

lemma to_lower_newline: "to_lower d = to_lower CHR 0x0A \<Longrightarrow> d = CHR 0x0A"
proof (cases "65 \<le> (of_char d :: nat) \<and> (of_char d :: nat) \<le> 90")
  case True
  assume "to_lower d = to_lower CHR 0x0A"
  with True have "char_of (of_char d + 32 :: nat) = CHR 0x0A" by (simp add: to_lower_def)
  then have "(of_char (char_of (of_char d + 32 :: nat) :: char) :: nat) = 10" by simp
  with True show ?thesis by simp
qed (auto simp: to_lower_def)

lemma words_line_of: "as \<noteq> [] \<Longrightarrow> list_all word as \<Longrightarrow> words (line_of as) = as"
proof (induction as rule: line_of.induct)
  case (2 a)
  then show ?case using words_spaced [of "[(a, [CHR 0x0A])]"] by (simp add: blanks_def blank_def)
next
  case (3 a b as)
  then show ?case by (simp add: words_word words_append_blank [of "'' ''"] blanks_def blank_def)
qed simp

lemma set_line_of: "set (line_of as) \<subseteq> insert CHR 0x0A (insert CHR '' '' (\<Union> (set ` set as)))"
  by (induction as rule: line_of.induct) auto

lemma typed_line_of:
  assumes "as \<noteq> []" and "list_all word as" and "list_all argument as" and "length (line_of as) < MAX_BUFFER_SIZE"
  shows "typed (line_of as)"
proof -
  obtain c cs where as: "as = c # cs" using assms(1) by (cases as) auto
  then obtain d ds where c: "c = d # ds" using assms(2) by (cases c) (auto simp: word_def)
  have "blank d \<noteq> CHR '' ''" using assms(2) as c by (simp add: word_def)
  then have "d \<noteq> CHR 0x0A" by (auto simp: blank_def)
  then have "to_lower d \<noteq> to_lower CHR 0x0A" using to_lower_newline by blast
  moreover have "\<exists>r. line_of as = d # r" by (cases cs) (simp_all add: as c)
  moreover have "NUL \<notin> set (line_of as)"
    using set_line_of [of as] assms(3) by (fastforce simp: list_all_iff argument_def NUL_def)
  ultimately show ?thesis using assms(4) by (auto simp: typed_def strcaseeq_def)
qed

lemma client_read_run:
  fixes w :: "'z world_scheme"
  assumes ok: "w_send_ok w = []" and line: "w_stdin w = line # lines" "typed line"
    and as: "words line = as" "as \<noteq> []" "length as \<le> MAX_ARGS" "list_all argument as"
    and naming: "w_in w ns = map Some (address_packets 2 si)" "info_ok si" "w_next w = k" "ns \<noteq> k"
    and storage: "w_connect w =
      [Some (replicate (length as) (Some (big ''ACK'')) @ map Some (chunks content @ [STOP_packet]))]"
    and content: "transferable content"
  shows "client_turn ctime junk ns w = Done False
    (emit (Sent ns (big line) # (Opened k (si_ip si) (si_client_port si) #
        map (Sent k) (command_packets as)) @
        (read_events k (chunks content) @ [Closed k]) @ [Printed ''Success''])
      (set_in k [] (set_connect [] (Suc k) (set_in ns [] (set_stdin lines w)))))"
proof -
  let ?data = "map Some (chunks content @ [STOP_packet])"
  define w1 where "w1 = emit [Sent ns (big line)] (set_in ns [] (set_stdin lines w))"
  define w2 where "w2 = emit (Opened k (si_ip si) (si_client_port si) # map (Sent k) (command_packets as))
      (set_in k ?data (set_connect [] (Suc k) w1))"
  have w1: "w_send_ok w1 = []" "w_next w1 = k"
    "w_connect w1 = Some (replicate (length (words line)) (Some (big ''ACK'')) @ ?data) # []"
    using ok storage as(1) naming(3) by (simp_all add: w1_def)
  have "connectToStorageServer (si_ip si) (si_client_port si) line w1 = Done k w2"
    using connect_run [OF w1(1,3)] as w1(2) by (simp add: w2_def)
  moreover have "readClientSide k w2 = Done 1 (emit (read_events k (chunks content) @ [Closed k]) (set_in k [] w2))"
    by (rule readClientSide_run) (use content w1(1) in \<open>simp_all add: w2_def\<close>)
  ultimately have "client_turn ctime junk ns w =
      Done False (emit [Printed ''Success''] (emit (read_events k (chunks content) @ [Closed k]) (set_in k [] w2)))"
    using client_turn_found [OF ok line _ naming(2,1), of ctime junk]
    by (simp add: w1_def [symmetric] io_simps run_simps)
  then show ?thesis by (simp add: w1_def w2_def)
qed

lemma serves_normal [simp]: "serves (emit es w) path i = serves w path i" "serves (set_in s q w) path i = serves w path i"
  by (simp_all add: serves_def emit_def set_in_def)

text \<open>The storage server's turn.\<close>

lemma serve_read_run:
  assumes ok: "w_send_ok w = []" and cmd: "strcaseeq cmd ''READ''" "argument cmd" "argument path"
    and s: "serves w path i" "has_sems i 1 1 0 w" "w_files w (''.'' @ path) = Some (File content)"
    and ports: "cp \<noteq> np"
    and input: "w_in w s = map Some (command_packets [cmd, path] @ replicate (length (chunks content)) ACK_packet @ q)"
  shows "serve_connection exec stat np cp old cp s w = Done ()
    (emit (replicate 2 (Sent s (big ''ACK'')) @ (map (Sent s) (chunks content) @ [Sent s STOP_packet, Closed s]) @ [Closed s])
      (set_in s (map Some q) w))"
proof -
  let ?acks = "replicate 2 (Sent s (big ''ACK''))"
  define w1 where "w1 = emit ?acks (set_in s (map Some (replicate (length (chunks content)) ACK_packet @ q)) w)"
  have "readServerSide [cmd, path] 2 s w1 =
      Done 1 (emit (map (Sent s) (chunks content) @ [Sent s STOP_packet, Closed s]) (set_in s (map Some q) w1))"
    by (rule readServerSide_run [where i = i]) (use ok s in \<open>simp_all add: w1_def\<close>)
  then have "execClientCommand stat [cmd, path] 2 s w1 =
      Done 1 (emit (map (Sent s) (chunks content) @ [Sent s STOP_packet, Closed s]) (set_in s (map Some q) w1))"
    using cmd(1) by (simp add: execClientCommand_def)
  moreover have "serve_connection exec stat np cp old cp s w =
      io_bind (io_bind (execClientCommand stat [cmd, path] 2 s) (\<lambda>_. io_return ())) (\<lambda>_. close_socket s) w1"
    using serve_connection_run [of w "[cmd, path]" s "map Some (replicate (length (chunks content)) ACK_packet @ q)"
        exec stat np cp old cp] ok cmd input ports
    by (simp add: w1_def)
  ultimately show ?thesis by (simp add: io_simps run_simps w1_def)
qed

text \<open>
  Claim C1. READ, from the line typed to the text printed: the client sends the line to the naming
  server, is told the address of the storage server that the path is registered for, connects to
  it, sends it the command and prints the file it gets; all three programs finish their turn, and
  the file is idle again.
\<close>

theorem read_session:
  assumes client: "w_send_ok wc = []" "w_stdin wc = line_of [cmd, path] # lines" "ns \<noteq> w_next wc"
    and line: "strcaseeq cmd ''READ''" "word cmd" "word path" "argument cmd" "argument path"
      "length cmd + length path + 2 < MAX_BUFFER_SIZE"
    and naming: "w_send_ok wn = []" "get_value (ns_paths wn) path = Inr n" "0 \<le> n"
      "server_info n wn = Done si wn" "info_ok si" "2 \<le> length rows"
    and storage: "w_send_ok ws = []" "serves ws path i" "has_sems i 1 1 0 ws"
      "w_files ws (''.'' @ path) = Some (File content)" "transferable content" "si_client_port si \<noteq> np"
  shows "\<exists>vc vn vs. session ns (client_turn ctime junk ns) wc c (client_handler_turn c rows) wn
      s (serve_connection exec stat np (si_client_port si) old (si_client_port si) s) ws
      False vc ([cmd, path] @ drop 2 rows, False) vn () vs \<and>
    Opened (w_next wc) (si_ip si) (si_client_port si) \<in> set (new_events wc vc) \<and>
    prints (new_events wc vc) = map cstr (chunks content) @ [''Success''] \<and>
    has_sems i 1 1 0 vs"
proof -
  let ?line = "line_of [cmd, path]" and ?cs = "chunks content" and ?k = "w_next wc"
  let ?answers = "replicate (length [cmd, path]) (Some (big ''ACK'')) @ map Some (chunks content @ [STOP_packet])"
  let ?ec = "Sent ns (big ?line) # (Opened ?k (si_ip si) (si_client_port si) #
      map (Sent ?k) (command_packets [cmd, path])) @ (read_events ?k ?cs @ [Closed ?k]) @ [Printed ''Success'']"
  let ?en = "map (Sent c) (address_packets 2 si)"
  let ?es = "replicate 2 (Sent s (big ''ACK'')) @ (map (Sent s) ?cs @ [Sent s STOP_packet, Closed s]) @ [Closed s]"
  have w: "typed ?line" "words ?line = [cmd, path]" using words_line_of [of "[cmd, path]"] typed_line_of [of "[cmd, path]"] line by simp_all
  let ?c0 = "feed ns (address_packets 2 si) (set_connect [Some ?answers] ?k wc)"
  define vc where "vc = emit ?ec (set_in ?k [] (set_connect [] (Suc ?k) (set_in ns [] (set_stdin lines ?c0))))"
  define vn where "vn = emit ?en (set_in c [] wn)"
  define vs where "vs = emit ?es (set_in s [Some ACK_packet] ws)"
  have "client_turn ctime junk ns ?c0 = Done False vc"
    unfolding vc_def
    by (rule client_read_run [OF _ _ w(1,2)])
       (use client line naming(5) storage(5) in \<open>simp_all add: feed_set_in MAX_ARGS_def\<close>)
  moreover have "client_handler_turn c rows (feed c [big ?line] wn) = Done ([cmd, path] @ drop 2 rows, False) vn"
    using naming_turn_address [of "feed c [big ?line] wn" ?line cmd path "[]" rows 2 n si c "[]"]
      w line naming
    by (simp add: vn_def feed_set_in address_command_def rows_ready_def server_info_def io_simps
        numeral_2_eq_2 split: if_splits)
  moreover have "serve_connection exec stat np (si_client_port si) old (si_client_port si) s
      (feed s (command_packets [cmd, path] @ replicate (length ?cs) ACK_packet @ [ACK_packet]) ws) = Done () vs"
    using serve_read_run [of "feed s (command_packets [cmd, path] @ replicate (length ?cs) ACK_packet @ [ACK_packet]) ws"
        cmd path i content "si_client_port si" np s "[ACK_packet]" exec stat old] line storage
    by (simp add: vs_def feed_set_in)
  moreover have ev: "new_events wc vc = ?ec" "new_events wn vn = ?en" "new_events ws vs = ?es"
    by (simp_all add: new_events_def vc_def vn_def vs_def feed_set_in)
  moreover have "sends ns ?ec = [big ?line]" "sends c ?en = address_packets 2 si"
    "sends ?k ?ec = command_packets [cmd, path] @ replicate (length ?cs) ACK_packet @ [ACK_packet]"
    "map Some (sends s ?es) = ?answers"
    using client(3) by (simp_all add: replicate_app_Cons_same)
  ultimately have "session ns (client_turn ctime junk ns) wc c (client_handler_turn c rows) wn
      s (serve_connection exec stat np (si_client_port si) old (si_client_port si) s) ws
      False vc ([cmd, path] @ drop 2 rows, False) vn () vs"
    unfolding session_def ev by (simp only: simp_thms)
  moreover have "prints ?ec = map cstr ?cs @ [''Success'']" by simp
  moreover have "has_sems i 1 1 0 vs" using storage(3) by (simp add: vs_def)
  ultimately show ?thesis
    unfolding ev [symmetric] by (intro exI [of _ vc] exI [of _ vn] exI [of _ vs]) (simp add: ev)
qed

theorem read_session_witness:
  "\<exists>(wn :: naming) (ws :: storage) vc vn vs. get_value (ns_paths wn) ''/a.txt'' = Inr 0 \<and> serves ws ''/a.txt'' 0 \<and>
     session 0 (client_turn (\<lambda>_. []) 0 0) (example_client\<lparr>w_stdin := [line_of [''READ'', ''/a.txt'']]\<rparr>)
       7 (client_handler_turn 7 [[], []]) wn
       8 (serve_connection (\<lambda>cmd fs. None) (\<lambda>_. None) 5000 5001 0 5001 8) ws
       False vc ([''READ'', ''/a.txt''], False) vn () vs \<and>
     has_sems 0 1 1 0 vs"
proof -
  let ?wc = "example_client\<lparr>w_stdin := [line_of [''READ'', ''/a.txt'']]\<rparr>"
  obtain wn :: naming where n: "get_value (ns_paths wn) ''/a.txt'' = Inr 0" "server_info 0 wn = Done full_info wn" "w_send_ok wn = []"
    using registered_naming by blast
  obtain ws :: storage where s: "serves ws ''/a.txt'' 0" "has_sems 0 1 1 0 ws" "w_send_ok ws = []"
    "w_files ws ''./a.txt'' = Some (File ''hello'')" using serving_storage by blast
  have c: "w_send_ok ?wc = []" "w_stdin ?wc = [line_of [''READ'', ''/a.txt'']]" "0 \<noteq> w_next ?wc"
    by (simp_all add: example_client_def)
  have w: "strcaseeq ''READ'' ''READ''" "word ''READ''" "word ''/a.txt''" "argument ''READ''" "argument ''/a.txt''"
    by (simp_all add: strcaseeq_def to_lower_def word_def blank_def argument_def NUL_def)
  have f: "si_client_port full_info = 5001" by (simp add: full_info_def example_info_def)
  have "\<exists>vc vn vs. session 0 (client_turn (\<lambda>_. []) 0 0) ?wc 7 (client_handler_turn 7 [[], []]) wn
       8 (serve_connection (\<lambda>cmd fs. None) (\<lambda>_. None) 5000 (si_client_port full_info) 0 (si_client_port full_info) 8) ws
       False vc ([''READ'', ''/a.txt''] @ drop 2 [[], []], False) vn () vs \<and>
     Opened (w_next ?wc) (si_ip full_info) (si_client_port full_info) \<in> set (new_events ?wc vc) \<and>
     prints (new_events ?wc vc) = map cstr (chunks ''hello'') @ [''Success''] \<and> has_sems 0 1 1 0 vs"
    by (rule read_session [OF c w _ n(3,1) _ n(2) full_info_ok _ s(3,1,2)])
       (simp_all add: f s(4) transferable_examples MAX_BUFFER_SIZE_def)
  then show ?thesis using n(1) s(1) unfolding f by (intro exI [of _ wn] exI [of _ ws]) auto
qed

end
