(* ===== verification/Create_Session.thy ===== *)
theory Create_Session
  imports Sessions
begin

text \<open>
  CREATE from the line typed at the client to the answer printed: the naming server has the command
  carried out by the storage server, on a connection of its own, before it answers.
\<close>

section \<open>The naming server\<close>

text \<open>The naming server has the command carried out by the storage server, on its naming port.\<close>

lemma getResults_run:
  assumes "w_send_ok w = []" and "w_next w = k"
    and "w_connect w = Some (replicate (length as) (Some (big ''ACK'')) @ [Some (big ''ACK'')]) # cs"
    and "take n args = as" and "length as = n"
  shows "getResultsFromSS ip port args n w = Done 1
    (emit (Opened k ip port # map (Sent k) (command_packets as) @ [Closed k]) (set_in k [] (set_connect cs (Suc k) w)))"
proof -
  have "ns_connectToStorageServer ip port args n w = Done k
    (emit (Opened k ip port # map (Sent k) (command_packets as))
      (set_in k [Some (big ''ACK'')] (set_connect cs (Suc k) w)))"
    using ns_connect_run [OF assms(1,3,4,5), of ip port] assms(2) by simp
  with assms(1) show ?thesis by (simp add: getResultsFromSS_def io_simps run_simps)
qed

definition set_paths :: "hashmap \<Rightarrow> 'z naming_scheme \<Rightarrow> 'z naming_scheme" where
  "set_paths m w = w\<lparr>ns_paths := m\<rparr>"

lemma set_paths_normal [simp]:
  "set_paths m (emit es w) = emit es (set_paths m w)" "set_paths m (set_in s q w) = set_in s q (set_paths m w)"
  "set_paths m (set_connect cs k w) = set_connect cs k (set_paths m w)"
  "w_in (set_paths m w) = w_in w" "w_send_ok (set_paths m w) = w_send_ok w" "w_events (set_paths m w) = w_events w"
  "ns_paths (set_paths m w) = m" "w_connect (set_paths m w) = w_connect w" "w_next (set_paths m w) = w_next w"
  by (simp_all add: set_paths_def emit_def set_in_def set_connect_def)

lemma connect_naming [simp]:
  "ns_paths (set_connect cs k w) = ns_paths w" "ns_infos (set_connect cs k w) = ns_infos w"
  by (simp_all add: set_connect_def)

lemma add_path_run:
  assumes "set_value (ns_paths w) p n = Inr m"
  shows "add_path p n w = Done () (set_paths m w)"
  using assms by (simp add: add_path_def set_paths_def io_simps)

lemma show_paths_run:
  assumes "print_map (ns_paths w) = Inr out"
  shows "show_paths w = Done () w"
  using assms by (simp add: show_paths_def io_simps)

lemma create_run:
  assumes ok: "w_send_ok w = []" and cmd: "strcaseeq cmd ''CREATE''"
    and rows: "take 3 rows = [cmd, path, filename]" and name: "length (path @ ''/'' @ filename) < PATH_MAX"
    and get: "get_value (ns_paths w) path = Inr n" "0 \<le> n" "server_info n w = Done si w"
    and map: "set_value (ns_paths w) (path @ ''/'' @ filename) n = Inr m" "print_map m = Inr out"
    and connect: "w_next w = k" "w_connect w =
      [Some (replicate (length [cmd, path, filename]) (Some (big ''ACK'')) @ [Some (big ''ACK'')])]"
  shows "create_delete c rows 3 w = Done ()
    (emit (Sent c (int_bytes 1) # (Opened k (si_ip si) (si_naming_port si) #
        map (Sent k) (command_packets [cmd, path, filename]) @ [Closed k]) @ [Sent c (big ''ACK'')])
      (set_in k [] (set_connect [] (Suc k) (set_paths m w))))"
proof -
  have nth: "rows ! 0 = cmd" "rows ! 1 = path" "rows ! 2 = filename"
    using rows by (cases rows; cases "tl rows"; cases "tl (tl rows)"; simp add: numeral_3_eq_3 numeral_2_eq_2; fastforce)+
  have info: "server_info n (emit es w) = Done si (emit es w)" for es
    using get(3) by (simp add: server_info_def io_simps split: if_splits)
  define w1 where "w1 = emit [Sent c (int_bytes 1)] w"
  have res: "getResultsFromSS (si_ip si) (si_naming_port si) rows 3 w1 = Done 1
    (emit (Opened k (si_ip si) (si_naming_port si) # map (Sent k) (command_packets [cmd, path, filename]) @ [Closed k])
      (set_in k [] (set_connect [] (Suc k) w1)))"
    by (rule getResults_run [OF _ _ _ rows]) (use ok connect in \<open>simp_all add: w1_def\<close>)
  define w2 where "w2 = emit (Opened k (si_ip si) (si_naming_port si) #
      map (Sent k) (command_packets [cmd, path, filename]) @ [Closed k]) (set_in k [] (set_connect [] (Suc k) w1))"
  have "add_path (path @ ''/'' @ filename) n w2 = Done () (set_paths m w2)"
    by (rule add_path_run) (use map in \<open>simp add: w1_def w2_def\<close>)
  moreover have "show_paths (set_paths m w2) = Done () (set_paths m w2)"
    by (rule show_paths_run) (use map in simp)
  moreover have "take (2 * PATH_MAX - 1) (path @ ''/'' @ filename) = path @ ''/'' @ filename" using name by simp
  moreover have "w_send_ok w2 = []" using ok by (simp add: w1_def w2_def)
  moreover have "\<not> strcaseeq cmd ''DELETE''" using cmd by (auto simp: strcaseeq_def to_lower_def)
  ultimately show ?thesis
    using ok cmd get(1,2) info res nth unfolding w2_def w1_def
    by (simp add: create_delete_def path_server_def reply_def io_simps run_simps Let_def)
qed

lemma naming_turn_create:
  assumes ok: "w_send_ok w = []" and line: "typed line" "words line = [cmd, path, filename]"
      "rows_ready rows [cmd, path, filename]"
    and cmd: "strcaseeq cmd ''CREATE''" and name: "length (path @ ''/'' @ filename) < PATH_MAX"
    and get: "get_value (ns_paths w) path = Inr n" "0 \<le> n" "server_info n w = Done si w"
    and map: "set_value (ns_paths w) (path @ ''/'' @ filename) n = Inr m" "print_map m = Inr out"
    and connect: "w_next w = k" "w_connect w =
      [Some (replicate (length [cmd, path, filename]) (Some (big ''ACK'')) @ [Some (big ''ACK'')])]"
    and input: "w_in w c = [Some (big line)]"
  shows "client_handler_turn c rows w = Done ([cmd, path, filename] @ drop 3 rows, False)
    (emit (Sent c (int_bytes 1) # (Opened k (si_ip si) (si_naming_port si) #
        map (Sent k) (command_packets [cmd, path, filename]) @ [Closed k]) @ [Sent c (big ''ACK'')])
      (set_in k [] (set_connect [] (Suc k) (set_paths m (set_in c [] w)))))"
proof -
  let ?rows = "[cmd, path, filename] @ drop 3 rows"
  define w1 where "w1 = set_in c [] w"
  have info: "server_info n w1 = Done si w1" using get(3) by (simp add: w1_def server_info_def io_simps split: if_splits)
  have "create_delete c ?rows 3 w1 = Done ()
    (emit (Sent c (int_bytes 1) # (Opened k (si_ip si) (si_naming_port si) #
        map (Sent k) (command_packets [cmd, path, filename]) @ [Closed k]) @ [Sent c (big ''ACK'')])
      (set_in k [] (set_connect [] (Suc k) (set_paths m w1))))"
    by (rule create_run [where n = n]) (use ok cmd name get map connect info in \<open>simp_all add: w1_def\<close>)
  then show ?thesis
    using ok cmd line input processCommand_ready [of rows line] unfolding w1_def
    by (simp add: client_handler_turn_defs io_simps run_simps eval_nat_numeral)
qed

section \<open>The storage server\<close>

definition created :: "files \<Rightarrow> hashmap \<Rightarrow> 'z storage_scheme \<Rightarrow> 'z storage_scheme" where
  "created fs m w =
     w\<lparr>w_files := fs, ss_path_to_sem := m, ss_associated_files := ss_associated_files w + 1\<rparr>"

lemma created_fields [simp]:
  "w_send_ok (created fs m w) = w_send_ok w" "w_events (created fs m w) = w_events w"
  "w_in (created fs m w) = w_in w" "created fs m (emit es w) = emit es (created fs m w)"
  "created fs m (set_in s q w) = set_in s q (created fs m w)" "ss_path_to_sem (created fs m w) = m"
  "ss_semaphores (created fs m w) = ss_semaphores w" "ss_semlocks (created fs m w) = ss_semlocks w"
  by (simp_all add: created_def emit_def set_in_def)

lemma storage_normal [simp]:
  "ss_path_to_sem (emit es w) = ss_path_to_sem w" "ss_path_to_sem (set_in s q w) = ss_path_to_sem w"
  "ss_semaphores (emit es w) = ss_semaphores w" "ss_semaphores (set_in s q w) = ss_semaphores w"
  "ss_semlocks (emit es w) = ss_semlocks w" "ss_semlocks (set_in s q w) = ss_semlocks w"
  "ss_associated_files (emit es w) = ss_associated_files w" "ss_associated_files (set_in s q w) = ss_associated_files w"
  "w_files (emit es w) = w_files w" "w_files (set_in s q w) = w_files w"
  by (simp_all add: emit_def set_in_def)

text \<open>The command line that CREATE runs.\<close>

definition create_command :: "string \<Rightarrow> string \<Rightarrow> string list" where
  "create_command path filename =
     (if has_extension filename then [''touch'', ''.'' @ path @ ''/'' @ filename]
      else [''mkdir'', ''.'' @ path @ ''/'' @ filename])"

lemma serve_create_run:
  assumes ok: "w_send_ok w = []" "storage_ok w" and cmd: "strcaseeq cmd ''CREATE''"
    and args: "list_all argument [cmd, path, filename]"
    and name: "plain (path @ ''/'' @ filename)" "length (path @ ''/'' @ filename) \<le> 4090"
    and run: "exec (create_command path filename) (w_files w) = Some (fs, True)"
    and input: "w_in w s = map Some (command_packets [cmd, path, filename])"
  shows "\<exists>m. serve_connection exec stat np cp junk np s w = Done ()
      (emit (replicate 3 (Sent s (big ''ACK'')) @ [Sent s (big ''ACK''), Closed s]) (set_in s [] (created fs m w))) \<and>
    pm_entries m = AList.update (path @ ''/'' @ filename) (ss_associated_files w) (registered w)"
proof -
  let ?as = "[cmd, path, filename]"
  define w1 where "w1 = emit (replicate 3 (Sent s (big ''ACK''))) (set_in s [] w)"
  have "storage_ok w1" using ok(2) by (simp add: w1_def storage_ok_def)
  with create_law [of w1 path filename exec fs] name run obtain m where
    m: "create exec path filename w1 = Done 1 (created fs m w1)"
    "pm_entries m = AList.update (path @ ''/'' @ filename) (ss_associated_files w1) (registered w1)"
    by (auto simp: w1_def create_command_def created_def)
  have "execCommand exec ?as 3 s w1 = Done 1 (created fs m w1)"
    using m(1) cmd by (simp add: execCommand_def runCreate_def io_simps eval_nat_numeral)
  moreover have "serve_connection exec stat np cp junk np s w =
      io_bind (io_bind (execCommand exec ?as 3 s) (\<lambda>result.
        send_or_exit s (big (if result = 1 then ''ACK'' else ''FAIL'')))) (\<lambda>_. close_socket s) w1"
    using serve_connection_run [of w ?as s "[]" exec stat np cp junk np] ok args input
    by (simp add: w1_def numeral_3_eq_3 del: replicate_Suc)
  moreover have "w_send_ok (created fs m w1) = []" using ok(1) by (simp add: w1_def)
  ultimately have "serve_connection exec stat np cp junk np s w =
      Done () (emit [Sent s (big ''ACK''), Closed s] (created fs m w1))"
    by (simp add: io_simps run_simps)
  with m(2) show ?thesis by (intro exI [of _ m]) (simp add: w1_def)
qed

section \<open>The client\<close>

lemma client_turn_executed:
  assumes "w_send_ok w = []" and "w_stdin w = line # lines" and "typed line"
    and "w_in w ns = [Some (int_bytes 1), Some (big ''ACK'')]"
  shows "client_turn ctime junk ns w = Done False
    (emit [Sent ns (big line), Printed ''Successfully executed command''] (set_in ns [] (set_stdin lines w)))"
proof -
  have "length line < MAX_BUFFER_SIZE" "\<not> strcaseeq line (CHR 0x0A # white)" using assms(3) by (simp_all add: typed_def)
  moreover have "int_received 0 (int_bytes 1) = 1" by (rule int_received_whole) auto
  ultimately show ?thesis using assms by (simp add: client_turn_defs io_simps run_simps Let_def)
qed

section \<open>The three together\<close>

text \<open>
  Like a session, but it is the naming server that connects to the storage server; the client only
  talks to the naming server.
\<close>

definition relay ::
  "nat \<Rightarrow> ('x world_scheme, 'a) io \<Rightarrow> 'x world_scheme \<Rightarrow> nat \<Rightarrow> ('y world_scheme, 'b) io \<Rightarrow> 'y world_scheme \<Rightarrow>
   nat \<Rightarrow> ('z world_scheme, 'c) io \<Rightarrow> 'z world_scheme \<Rightarrow>
   'a \<Rightarrow> 'x world_scheme \<Rightarrow> 'b \<Rightarrow> 'y world_scheme \<Rightarrow> 'c \<Rightarrow> 'z world_scheme \<Rightarrow> bool" where
  "relay ns client wc c naming wn s storage ws rc vc rn vn rs vs \<longleftrightarrow>
     client (feed ns (sends c (new_events wn vn)) wc) = Done rc vc \<and>
     naming (feed c (sends ns (new_events wc vc))
       (set_connect [Some (map Some (sends s (new_events ws vs)))] (w_next wn) wn)) = Done rn vn \<and>
     storage (feed s (sends (w_next wn) (new_events wn vn)) ws) = Done rs vs"

lemma set_paths_set_connect [simp]: "set_connect cs k (set_connect cs' k' w) = set_connect cs k w"
  by simp

text \<open>
  Claim C3. CREATE, from the line typed to the answer printed: the naming server passes the command on
  to the storage server that the directory is registered for, which runs touch or mkdir and
  registers the new path; the naming server then enters the path under the same storage server
  and the client is told of the success. Neither semaphore of the new file is initialised.
\<close>

theorem create_session:
  assumes client: "w_send_ok wc = []" "w_stdin wc = line_of [cmd, path, filename] # lines"
    and line: "strcaseeq cmd ''CREATE''" "list_all word [cmd, path, filename]"
      "list_all argument [cmd, path, filename]" "length (line_of [cmd, path, filename]) < MAX_BUFFER_SIZE"
    and name: "plain (path @ ''/'' @ filename)" "length (path @ ''/'' @ filename) \<le> 4090"
    and naming: "w_send_ok wn = []" "plain_map (ns_paths wn)" "get_value (ns_paths wn) path = Inr n"
      "0 \<le> n" "n < int MAX_SS" "server_info n wn = Done si wn" "c \<noteq> w_next wn" "3 \<le> length rows"
    and storage: "w_send_ok ws = []" "storage_ok ws"
      "exec (create_command path filename) (w_files ws) = Some (fs, True)"
  shows "\<exists>vc vn vs. relay ns (client_turn ctime junk ns) wc c (client_handler_turn c rows) wn
      s (serve_connection exec stat (si_naming_port si) cp old (si_naming_port si) s) ws
      False vc ([cmd, path, filename] @ drop 3 rows, False) vn () vs \<and>
    prints (new_events wc vc) = [''Successfully executed command''] \<and>
    pm_entries (ns_paths vn) = AList.update (path @ ''/'' @ filename) n (pm_entries (ns_paths wn)) \<and>
    registered vs = AList.update (path @ ''/'' @ filename) (ss_associated_files ws) (registered ws) \<and>
    w_files vs = fs \<and> ss_semaphores vs = ss_semaphores ws \<and> ss_semlocks vs = ss_semlocks ws"
proof -
  let ?as = "[cmd, path, filename]" and ?k = "w_next wn" and ?new = "path @ ''/'' @ filename"
  let ?line = "line_of ?as"
  let ?ec = "[Sent ns (big ?line), Printed ''Successfully executed command'']"
  let ?en = "Sent c (int_bytes 1) # (Opened ?k (si_ip si) (si_naming_port si) #
        map (Sent ?k) (command_packets ?as) @ [Closed ?k]) @ [Sent c (big ''ACK'')]"
  let ?es = "replicate 3 (Sent s (big ''ACK'')) @ [Sent s (big ''ACK''), Closed s]"
  let ?answers = "replicate (length ?as) (Some (big ''ACK'')) @ [Some (big ''ACK'')]"
  have w: "typed ?line" "words ?line = ?as" using words_line_of [of ?as] typed_line_of [of ?as] line by simp_all
  obtain m where m: "set_value (ns_paths wn) ?new n = Inr m" "plain_map m"
    "pm_entries m = AList.update ?new n (pm_entries (ns_paths wn))"
    by (rule set_value_plain [OF naming(2) name, of n]) (use naming(4,5) in \<open>auto simp: MAX_SS_def\<close>)
  let ?n0 = "feed c [big ?line] (set_connect [Some ?answers] ?k wn)"
  define vn where "vn = emit ?en (set_in ?k [] (set_connect [] (Suc ?k) (set_paths m (set_in c [] ?n0))))"
  have turn: "client_handler_turn c rows ?n0 = Done (?as @ drop 3 rows, False) vn"
    unfolding vn_def
    by (rule naming_turn_create [OF _ w _ line(1) _ _ naming(4) _ _ print_map_law [OF m(2)]])
       (use line naming name m in \<open>simp_all add: feed_set_in rows_ready_def server_info_def io_simps split: if_splits\<close>)
  define vc where "vc = emit ?ec (set_in ns [] (set_stdin lines wc))"
  have answer: "client_turn ctime junk ns (feed ns [int_bytes 1, big ''ACK''] wc) = Done False vc"
    using client_turn_executed [of "feed ns [int_bytes 1, big ''ACK''] wc" ?line lines ns ctime junk] client w(1)
    by (simp add: vc_def feed_set_in)
  obtain m' where m': "serve_connection exec stat (si_naming_port si) cp old (si_naming_port si) s
      (feed s (command_packets ?as) ws) = Done () (emit ?es (set_in s [] (created fs m' ws)))"
    "pm_entries m' = AList.update ?new (ss_associated_files ws) (registered ws)"
    using serve_create_run [of "feed s (command_packets ?as) ws" cmd path filename exec fs s stat
        "si_naming_port si" cp old] line name storage
    by (auto simp: feed_set_in storage_ok_def)
  define vs where "vs = emit ?es (set_in s [] (created fs m' ws))"
  have ev: "new_events wc vc = ?ec" "new_events wn vn = ?en" "new_events ws vs = ?es"
    by (simp_all add: new_events_def vc_def vn_def vs_def feed_set_in)
  have "sends ns ?ec = [big ?line]" "sends c ?en = [int_bytes 1, big ''ACK'']" "sends ?k ?en = command_packets ?as"
    "map Some (sends s ?es) = ?answers"
    using naming(7) by (simp_all add: numeral_3_eq_3)
  then have "relay ns (client_turn ctime junk ns) wc c (client_handler_turn c rows) wn
      s (serve_connection exec stat (si_naming_port si) cp old (si_naming_port si) s) ws
      False vc (?as @ drop 3 rows, False) vn () vs"
    unfolding relay_def ev using turn answer m'(1) by (simp only: vs_def simp_thms)
  moreover have "prints ?ec = [''Successfully executed command'']" by simp
  moreover have "ns_paths vn = m" by (simp add: vn_def feed_set_in)
  ultimately show ?thesis
    unfolding ev [symmetric] using m(3) m'(2)
    by (intro exI [of _ vc] exI [of _ vn] exI [of _ vs]) (simp add: ev vs_def created_def)
qed

theorem create_session_witness:
  "\<exists>(wn :: naming) vc vn vs. get_value (ns_paths wn) ''/d'' = Inr 0 \<and>
     relay 0 (client_turn (\<lambda>_. []) 0 0) (example_client\<lparr>w_stdin := [line_of [''CREATE'', ''/d'', ''f.c'']]\<rparr>)
       (Suc (w_next wn)) (client_handler_turn (Suc (w_next wn)) [[], [], []]) wn
       8 (serve_connection (\<lambda>cmd fs. Some (fs, True)) (\<lambda>_. None) 5000 5001 0 5000 8) fresh_storage
       False vc ([''CREATE'', ''/d'', ''f.c''], False) vn () vs \<and>
     registered vs = [(''/d/f.c'', 0)]"
proof -
  let ?as = "[''CREATE'', ''/d'', ''f.c'']"
  let ?wc = "example_client\<lparr>w_stdin := [line_of ?as]\<rparr>"
  obtain wn :: naming where n: "get_value (ns_paths wn) ''/d'' = Inr 0" "server_info 0 wn = Done full_info wn"
    "w_send_ok wn = []" "plain_map (ns_paths wn)"
    using registered_naming by blast
  have c: "w_send_ok ?wc = []" "w_stdin ?wc = [line_of ?as]" by (simp_all add: example_client_def)
  have w: "strcaseeq ''CREATE'' ''CREATE''" "list_all word ?as" "list_all argument ?as"
    "length (line_of ?as) < MAX_BUFFER_SIZE"
    by (simp_all add: strcaseeq_def word_def blank_def argument_def NUL_def MAX_BUFFER_SIZE_def)
  have p: "plain (''/d'' @ ''/'' @ ''f.c'')" by (simp add: plain_def is_space_def)
  have f: "si_naming_port full_info = 5000" by (simp add: full_info_def example_info_def)
  have "\<exists>vc vn vs. relay 0 (client_turn (\<lambda>_. []) 0 0) ?wc
       (Suc (w_next wn)) (client_handler_turn (Suc (w_next wn)) [[], [], []]) wn
       8 (serve_connection (\<lambda>cmd fs. Some (fs, True)) (\<lambda>_. None) (si_naming_port full_info) 5001 0
         (si_naming_port full_info) 8) fresh_storage
       False vc (?as @ drop 3 [[], [], []], False) vn () vs \<and>
     prints (new_events ?wc vc) = [''Successfully executed command''] \<and>
     pm_entries (ns_paths vn) = AList.update (''/d'' @ ''/'' @ ''f.c'') 0 (pm_entries (ns_paths wn)) \<and>
     registered vs = AList.update (''/d'' @ ''/'' @ ''f.c'') (ss_associated_files fresh_storage) (registered fresh_storage) \<and>
     w_files vs = w_files fresh_storage \<and> ss_semaphores vs = ss_semaphores fresh_storage \<and>
     ss_semlocks vs = ss_semlocks fresh_storage"
    by (rule create_session [OF c w p _ n(3,4,1) _ _ n(2)])
       (simp_all add: fresh_storage(1), simp_all add: fresh_storage_def MAX_SS_def)
  moreover have "ss_associated_files fresh_storage = 0" by (simp add: fresh_storage_def)
  ultimately show ?thesis using n(1) unfolding f fresh_storage(2) by (intro exI [of _ wn]) auto
qed

end
