(* ===== verification/Copy_Session.thy ===== *)
theory Copy_Session
  imports Copy Create_Session
begin

text \<open>
  COPY from the line typed at the client to the answer printed: the naming server opens a connection
  to each of the two storage servers, has one send and the other receive, and passes the file on.
\<close>

section \<open>The storage servers\<close>

lemma files_normal [simp]:
  "w_locked (emit es w) = w_locked w" "w_locked (set_in s q w) = w_locked w"
  by (simp_all add: emit_def set_in_def)

lemma serve_send_run:
  assumes ok: "w_send_ok w = []" and path: "path = dir @ ''/'' @ name" "name \<noteq> []" "CHR ''/'' \<notin> set name" "argument path"
    and content: "w_files w (''.'' @ path) = Some (File content)"
    and input: "w_in w s = map Some (command_packets [''SEND'', path])"
  shows "serve_connection exec stat np cp junk np s w = Done ()
    (emit (replicate 2 (Sent s (big ''ACK'')) @ (Sent s name # map (Sent s) (chunks content) @ [Sent s STOP_packet]) @
      [Sent s (big ''ACK''), Closed s]) (set_in s [] w))"
proof -
  let ?as = "[''SEND'', path]" and ?sent = "Sent s name # map (Sent s) (chunks content) @ [Sent s STOP_packet]"
  define w1 where "w1 = emit (replicate 2 (Sent s (big ''ACK''))) (set_in s [] w)"
  have "runSend exec ?as 2 s w1 = Done 1 (emit ?sent w1)"
    by (rule runSend_run) (use ok content basename_of [OF path(2,3), of "''.'' @ dir"] in \<open>simp_all add: w1_def path(1)\<close>)
  then have "execCommand exec ?as 2 s w1 = Done 1 (emit ?sent w1)"
    by (simp add: execCommand_def strcaseeq_def to_lower_def)
  moreover have "list_all argument ?as" using path(4) by (simp add: argument_def NUL_def)
  then have "serve_connection exec stat np cp junk np s w =
      io_bind (io_bind (execCommand exec ?as 2 s) (\<lambda>result.
        send_or_exit s (big (if result = 1 then ''ACK'' else ''FAIL'')))) (\<lambda>_. close_socket s) w1"
    using serve_connection_run [of w ?as s "[]" exec stat np cp junk np] ok input by (simp add: w1_def)
  moreover have "w_send_ok w1 = []" using ok by (simp add: w1_def)
  ultimately show ?thesis by (simp add: io_simps run_simps w1_def)
qed

lemma serve_receive_run:
  assumes ok: "w_send_ok w = []" and ps: "list_all data_packet ps" and dir: "argument dir"
    and name: "7 \<le> length name" "length name \<le> CHUNK_SIZE" "NUL \<notin> set name" "drop (length name - 7) name \<noteq> ''.tar.gz''"
    and free: "\<not> w_locked w (''.'' @ dir @ ''/'' @ name)" "w_files w (''.'' @ dir @ ''/'' @ name) \<noteq> Some Dir"
    and input: "w_in w s = map Some (command_packets [''RECEIVE'', dir] @ buffer (CHUNK_SIZE + 1) name #
      map (buffer (CHUNK_SIZE + 1)) ps @ [''STOP'' @ [NUL]])"
  shows "serve_connection exec stat np cp junk np s w = Done ()
    (set_file (''.'' @ dir @ ''/'' @ name) (concat (map cstr ps))
      (emit (replicate 2 (Sent s (big ''ACK'')) @ [Sent s (int_bytes 0), Sent s (big ''ACK''), Closed s]) (set_in s [] w)))"
proof -
  let ?as = "[''RECEIVE'', dir]"
  let ?q = "map Some (buffer (CHUNK_SIZE + 1) name # map (buffer (CHUNK_SIZE + 1)) ps @ [''STOP'' @ [NUL]])"
  let ?put = "set_file (''.'' @ dir @ ''/'' @ name) (concat (map cstr ps))"
  define w1 where "w1 = emit (replicate 2 (Sent s (big ''ACK''))) (set_in s ?q w)"
  have "runReceive exec ?as 2 s w1 = Done 1 (?put (emit [Sent s (int_bytes 0)] (set_in s [] w1)))"
    by (rule runReceive_run) (use ok ps name free in \<open>simp_all add: w1_def\<close>)
  then have "execCommand exec ?as 2 s w1 = Done 1 (?put (emit [Sent s (int_bytes 0)] (set_in s [] w1)))"
    by (simp add: execCommand_def strcaseeq_def to_lower_def)
  moreover have "list_all argument ?as" using dir by (simp add: argument_def NUL_def)
  then have "serve_connection exec stat np cp junk np s w =
      io_bind (io_bind (execCommand exec ?as 2 s) (\<lambda>result.
        send_or_exit s (big (if result = 1 then ''ACK'' else ''FAIL'')))) (\<lambda>_. close_socket s) w1"
    using serve_connection_run [of w ?as s ?q exec stat np cp junk np] ok input by (simp add: w1_def)
  moreover have "w_send_ok w1 = []" using ok by (simp add: w1_def)
  ultimately show ?thesis by (simp add: io_simps run_simps w1_def)
qed

section \<open>The naming server\<close>

lemma copy_run:
  assumes ok: "w_send_ok w = []" and rows: "take 3 rows = [cmd, path, dir]"
    and path: "path = folder @ ''/'' @ name" "name \<noteq> []" "CHR ''/'' \<notin> set name" "length name \<le> CHUNK_SIZE"
    and new: "length (dir @ ''/'' @ name) < 2 * PATH_MAX"
    and get1: "get_value (ns_paths w) path = Inr n1" "0 \<le> n1" "server_info n1 w = Done si1 w"
    and get2: "get_value (ns_paths w) dir = Inr n2" "0 \<le> n2" "server_info n2 w = Done si2 w"
    and map: "set_value (ns_paths w) (dir @ ''/'' @ name) n2 = Inr m" "print_map m = Inr out"
    and packets: "list_all (\<lambda>p. data_packet p \<and> p \<noteq> []) ps"
    and connect: "w_next w = k" "w_connect w =
      [Some (replicate 2 (Some (big ''ACK'')) @ Some name # map Some ps @ [Some STOP_packet, Some (big ''ACK'')]),
       Some (replicate 2 (Some (big ''ACK'')) @ [Some (int_bytes 0), Some (big ''ACK'')])]"
  shows "\<exists>v. copy c rows w = Done rows v \<and> ns_paths v = m \<and> w_events v = w_events w @
    (Sent c (int_bytes 1) #
     (Opened k (si_ip si1) (si_naming_port si1) # map (Sent k) (command_packets [''SEND'', path])) @
     (Opened (Suc k) (si_ip si2) (si_naming_port si2) # map (Sent (Suc k)) (command_packets [''RECEIVE'', dir])) @
     (Sent (Suc k) (buffer (CHUNK_SIZE + 1) name) # map (\<lambda>p. Sent (Suc k) (buffer (CHUNK_SIZE + 1) p)) ps @
      [Sent (Suc k) (''STOP'' @ [NUL]), Closed k, Closed (Suc k)]) @ [Sent c (big ''ACK'')])"
proof -
  have nth: "rows ! 1 = path" "rows ! 2 = dir" "3 \<le> length rows"
    using rows by (cases rows; cases "tl rows"; cases "tl (tl rows)"; simp add: numeral_3_eq_3 numeral_2_eq_2; fastforce)+
  have info: "server_info n (emit es w') = Done si (emit es w')" "server_info n (set_in s q w') = Done si (set_in s q w')"
    "server_info n (set_connect cs j w') = Done si (set_connect cs j w')"
    if "server_info n w' = Done si w'" for n si es s q cs j and w' :: "'a naming_scheme"
    using that by (simp_all add: server_info_def io_simps split: if_splits)
  let ?in1 = "Some name # map Some ps @ [Some STOP_packet, Some (big ''ACK'')]"
  let ?in2 = "[Some (int_bytes 0), Some (big ''ACK'')]"
  let ?c2 = "Some (replicate 2 (Some (big ''ACK'')) @ ?in2)"
  define w1 where "w1 = emit [Sent c (int_bytes 1)] w"
  define w2 where "w2 = emit (Opened k (si_ip si1) (si_naming_port si1) # map (Sent k) (command_packets [''SEND'', path]))
      (set_in k ?in1 (set_connect [?c2] (Suc k) w1))"
  define w3 where "w3 = emit (Opened (Suc k) (si_ip si2) (si_naming_port si2) #
      map (Sent (Suc k)) (command_packets [''RECEIVE'', dir])) (set_in (Suc k) ?in2 (set_connect [] (Suc (Suc k)) w2))"
  define w4 where "w4 = emit (Sent (Suc k) (buffer (CHUNK_SIZE + 1) name) #
      map (\<lambda>p. Sent (Suc k) (buffer (CHUNK_SIZE + 1) p)) ps @
      [Sent (Suc k) (''STOP'' @ [NUL]), Closed k, Closed (Suc k)]) (set_in (Suc k) [] (set_in k [] w3))"
  have s1: "ns_connectToStorageServer (si_ip si1) (si_naming_port si1) [''SEND'', path] 2 w1 = Done k w2"
    using ns_connect_run [of w1 "[''SEND'', path]" ?in1 "[?c2]" 2 "[''SEND'', path]"] ok connect
    by (simp add: w1_def w2_def)
  have s2: "ns_connectToStorageServer (si_ip si2) (si_naming_port si2) [''RECEIVE'', dir] 2 w2 = Done (Suc k) w3"
    using ns_connect_run [of w2 "[''RECEIVE'', dir]" ?in2 "[]" 2 "[''RECEIVE'', dir]"] ok connect
    by (simp add: w1_def w2_def w3_def)
  have s3: "facilitateCopy k (Suc k) w3 = Done 1 w4"
    unfolding w4_def
    by (rule facilitateCopy_run [OF _ packets path(4)]) (use ok in \<open>simp_all add: w1_def w2_def w3_def\<close>)
  have i1: "server_info n1 w1 = Done si1 w1" and i2: "server_info n2 w2 = Done si2 w2"
    using get1(3) get2(3) by (simp_all add: w1_def w2_def info)
  have paths: "ns_paths w1 = ns_paths w" "ns_paths w4 = ns_paths w" "w_send_ok w4 = []"
    using ok by (simp_all add: w1_def w2_def w3_def w4_def)
  have "add_path (dir @ ''/'' @ name) n2 w4 = Done () (set_paths m w4)"
    by (rule add_path_run) (use map paths in simp)
  moreover have "show_paths (set_paths m w4) = Done () (set_paths m w4)"
    by (rule show_paths_run) (use map in simp)
  moreover have "take (2 * PATH_MAX - 1) (dir @ ''/'' @ name) = dir @ ''/'' @ name" using new by simp
  moreover have "rows[Suc 0 := path] = rows" using nth by (metis One_nat_def list_update_id)
  ultimately have "copy c rows w = Done rows (emit [Sent c (big ''ACK'')] (set_paths m w4))"
    using ok nth get1(1,2) get2(1,2) i1 i2 s1 s2 s3 paths basename_of [OF path(2,3), of folder] path(1)
    by (simp add: copy_def path_server_def reply_def io_simps run_simps Let_def w1_def [symmetric])
  then show ?thesis by (intro exI [of _ "emit [Sent c (big ''ACK'')] (set_paths m w4)"])
      (simp add: w1_def w2_def w3_def w4_def)
qed

lemma naming_turn_copy:
  assumes ok: "w_send_ok w = []" and line: "typed line" "words line = [cmd, path, dir]"
    and cmd: "strcaseeq cmd ''COPY''" "list_all argument [cmd, path, dir]" "3 \<le> length rows"
    and path: "path = folder @ ''/'' @ name" "name \<noteq> []" "CHR ''/'' \<notin> set name" "length name \<le> CHUNK_SIZE"
    and new: "length (dir @ ''/'' @ name) < 2 * PATH_MAX"
    and get1: "get_value (ns_paths w) path = Inr n1" "0 \<le> n1" "server_info n1 w = Done si1 w"
    and get2: "get_value (ns_paths w) dir = Inr n2" "0 \<le> n2" "server_info n2 w = Done si2 w"
    and map: "set_value (ns_paths w) (dir @ ''/'' @ name) n2 = Inr m" "print_map m = Inr out"
    and packets: "list_all (\<lambda>p. data_packet p \<and> p \<noteq> []) ps"
  shows "\<exists>v. client_handler_turn c rows (feed c [big line] (set_connect
      [Some (replicate 2 (Some (big ''ACK'')) @ Some name # map Some ps @ [Some STOP_packet, Some (big ''ACK'')]),
       Some (replicate 2 (Some (big ''ACK'')) @ [Some (int_bytes 0), Some (big ''ACK'')])] (w_next w) w)) =
      Done ([cmd, path, dir] @ drop 3 rows, False) v \<and> ns_paths v = m \<and> w_events v = w_events w @
    (Sent c (int_bytes 1) #
     (Opened (w_next w) (si_ip si1) (si_naming_port si1) # map (Sent (w_next w)) (command_packets [''SEND'', path])) @
     (Opened (Suc (w_next w)) (si_ip si2) (si_naming_port si2) #
      map (Sent (Suc (w_next w))) (command_packets [''RECEIVE'', dir])) @
     (Sent (Suc (w_next w)) (buffer (CHUNK_SIZE + 1) name) #
      map (\<lambda>p. Sent (Suc (w_next w)) (buffer (CHUNK_SIZE + 1) p)) ps @
      [Sent (Suc (w_next w)) (''STOP'' @ [NUL]), Closed (w_next w), Closed (Suc (w_next w))]) @ [Sent c (big ''ACK'')])"
proof -
  let ?rows = "[cmd, path, dir] @ drop 3 rows" and ?k = "w_next w"
  let ?cs = "[Some (replicate 2 (Some (big ''ACK'')) @ Some name # map Some ps @ [Some STOP_packet, Some (big ''ACK'')]),
       Some (replicate 2 (Some (big ''ACK'')) @ [Some (int_bytes 0), Some (big ''ACK'')])]"
  define n0 where "n0 = set_in c [] (set_connect ?cs ?k w)"
  have n0: "w_send_ok n0 = []" "ns_paths n0 = ns_paths w" "w_next n0 = ?k" "w_connect n0 = ?cs" "w_events n0 = w_events w"
    "server_info n1 n0 = Done si1 n0" "server_info n2 n0 = Done si2 n0"
    using ok get1(3) get2(3) by (simp_all add: n0_def server_info_def io_simps split: if_splits)
  have run: "\<exists>v. copy c ?rows n0 = Done ?rows v \<and> ns_paths v = m \<and> w_events v = w_events n0 @
    (Sent c (int_bytes 1) #
     (Opened ?k (si_ip si1) (si_naming_port si1) # map (Sent ?k) (command_packets [''SEND'', path])) @
     (Opened (Suc ?k) (si_ip si2) (si_naming_port si2) # map (Sent (Suc ?k)) (command_packets [''RECEIVE'', dir])) @
     (Sent (Suc ?k) (buffer (CHUNK_SIZE + 1) name) # map (\<lambda>p. Sent (Suc ?k) (buffer (CHUNK_SIZE + 1) p)) ps @
      [Sent (Suc ?k) (''STOP'' @ [NUL]), Closed ?k, Closed (Suc ?k)]) @ [Sent c (big ''ACK'')])"
    by (rule copy_run [OF n0(1) _ path new _ get1(2) n0(6) _ get2(2) n0(7) _ map(2) packets n0(3,4)])
       (use n0(2) get1(1) get2(1) map(1) in simp_all)
  have "\<not> strcaseeq cmd ''CREATE''" "\<not> strcaseeq cmd ''DELETE''" "\<not> strcaseeq cmd ''READ''" "\<not> strcaseeq cmd ''WRITE''"
    using cmd(1) by (auto simp: strcaseeq_def to_lower_def)
  moreover have "rows_ready rows (words line)" using cmd(2,3) line(2) by (simp add: rows_ready_def)
  ultimately have "client_handler_turn c rows (feed c [big line] (set_connect ?cs ?k w)) = Done (?rows, False) v"
    if "copy c ?rows n0 = Done ?rows v" for v
    using that cmd(1) line processCommand_ready [of rows line]
    by (simp add: client_handler_turn_defs feed_set_in io_simps run_simps n0_def numeral_3_eq_3)
  with run n0(5) show ?thesis by metis
qed

section \<open>The four together\<close>

text \<open>The naming server opens two connections, the first to the sender and the second to the receiver.\<close>

definition copying ::
  "nat \<Rightarrow> ('x world_scheme, 'a) io \<Rightarrow> 'x world_scheme \<Rightarrow> nat \<Rightarrow> ('y world_scheme, 'b) io \<Rightarrow> 'y world_scheme \<Rightarrow>
   nat \<Rightarrow> ('z world_scheme, 'c) io \<Rightarrow> 'z world_scheme \<Rightarrow> nat \<Rightarrow> ('z world_scheme, 'c) io \<Rightarrow> 'z world_scheme \<Rightarrow>
   'a \<Rightarrow> 'x world_scheme \<Rightarrow> 'b \<Rightarrow> 'y world_scheme \<Rightarrow> 'c \<Rightarrow> 'z world_scheme \<Rightarrow> 'c \<Rightarrow> 'z world_scheme \<Rightarrow> bool" where
  "copying ns client wc c naming wn s sender ws t receiver wt rc vc rn vn rs vs rt vt \<longleftrightarrow>
     client (feed ns (sends c (new_events wn vn)) wc) = Done rc vc \<and>
     naming (feed c (sends ns (new_events wc vc))
       (set_connect [Some (map Some (sends s (new_events ws vs))), Some (map Some (sends t (new_events wt vt)))]
         (w_next wn) wn)) = Done rn vn \<and>
     sender (feed s (sends (w_next wn) (new_events wn vn)) ws) = Done rs vs \<and>
     receiver (feed t (sends (Suc (w_next wn)) (new_events wn vn)) wt) = Done rt vt"

lemma sends_forwarded [simp]:
  "sends s (map (\<lambda>p. Sent s (f p)) ps) = map f ps" "s \<noteq> t \<Longrightarrow> sends t (map (\<lambda>p. Sent s (f p)) ps) = []"
proof -
  show "sends s (map (\<lambda>p. Sent s (f p)) ps) = map f ps" by (induction ps) simp_all
  show "s \<noteq> t \<Longrightarrow> sends t (map (\<lambda>p. Sent s (f p)) ps) = []" by (induction ps) simp_all
qed

text \<open>
  Claim C5. COPY, from the line typed to the answer printed: the naming server has the storage server
  of the path send the file and that of the directory receive it, all four programs finish their
  turn, the receiver has what the transfer carries of the file (all of it if it has no zero bytes)
  under the directory, the naming server enters the new path under the receiver's number, and the
  client is told of the success.
\<close>

theorem copy_session:
  assumes client: "w_send_ok wc = []" "w_stdin wc = line_of [cmd, path, dir] # lines"
    and line: "strcaseeq cmd ''COPY''" "list_all word [cmd, path, dir]" "list_all argument [cmd, path, dir]"
      "length (line_of [cmd, path, dir]) < MAX_BUFFER_SIZE"
    and path: "path = folder @ ''/'' @ name" "CHR ''/'' \<notin> set name" "7 \<le> length name" "length name \<le> CHUNK_SIZE"
      "drop (length name - 7) name \<noteq> ''.tar.gz''"
    and new: "plain (dir @ ''/'' @ name)" "length (dir @ ''/'' @ name) \<le> 4090"
    and naming: "w_send_ok wn = []" "plain_map (ns_paths wn)"
      "get_value (ns_paths wn) path = Inr n1" "0 \<le> n1" "server_info n1 wn = Done si1 wn"
      "get_value (ns_paths wn) dir = Inr n2" "0 \<le> n2" "n2 < int MAX_SS" "server_info n2 wn = Done si2 wn"
      "c \<noteq> w_next wn" "c \<noteq> Suc (w_next wn)" "3 \<le> length rows"
    and sender: "w_send_ok ws = []" "w_files ws (''.'' @ path) = Some (File content)" "transferable content"
    and receiver: "w_send_ok wt = []" "\<not> w_locked wt (''.'' @ dir @ ''/'' @ name)"
      "w_files wt (''.'' @ dir @ ''/'' @ name) \<noteq> Some Dir"
  shows "\<exists>vc vn vs vt. copying ns (client_turn ctime junk ns) wc c (client_handler_turn c rows) wn
      s (serve_connection exec stat (si_naming_port si1) cp1 old (si_naming_port si1) s) ws
      t (serve_connection exec stat (si_naming_port si2) cp2 old (si_naming_port si2) t) wt
      False vc ([cmd, path, dir] @ drop 3 rows, False) vn () vs () vt \<and>
    prints (new_events wc vc) = [''Successfully executed command''] \<and>
    w_files vt (''.'' @ dir @ ''/'' @ name) = Some (File (carried content)) \<and>
    (NUL \<notin> set content \<longrightarrow> w_files vt (''.'' @ dir @ ''/'' @ name) = Some (File content)) \<and>
    pm_entries (ns_paths vn) = AList.update (dir @ ''/'' @ name) n2 (pm_entries (ns_paths wn))"
proof -
  let ?as = "[cmd, path, dir]" and ?k = "w_next wn" and ?cs = "chunks content" and ?f = "''.'' @ dir @ ''/'' @ name"
  let ?line = "line_of ?as" and ?rows = "[cmd, path, dir] @ drop 3 rows"
  let ?forward = "Sent (Suc ?k) (buffer (CHUNK_SIZE + 1) name) # map (\<lambda>p. Sent (Suc ?k) (buffer (CHUNK_SIZE + 1) p)) ?cs @
      [Sent (Suc ?k) (''STOP'' @ [NUL]), Closed ?k, Closed (Suc ?k)]"
  let ?ec = "[Sent ns (big ?line), Printed ''Successfully executed command'']"
  let ?en = "Sent c (int_bytes 1) #
     (Opened ?k (si_ip si1) (si_naming_port si1) # map (Sent ?k) (command_packets [''SEND'', path])) @
     (Opened (Suc ?k) (si_ip si2) (si_naming_port si2) # map (Sent (Suc ?k)) (command_packets [''RECEIVE'', dir])) @
     ?forward @ [Sent c (big ''ACK'')]"
  let ?es = "replicate 2 (Sent s (big ''ACK'')) @ (Sent s name # map (Sent s) ?cs @ [Sent s STOP_packet]) @
      [Sent s (big ''ACK''), Closed s]"
  let ?et = "replicate 2 (Sent t (big ''ACK'')) @ [Sent t (int_bytes 0), Sent t (big ''ACK''), Closed t]"
  let ?in1 = "Some (replicate 2 (Some (big ''ACK'')) @ Some name # map Some ?cs @ [Some STOP_packet, Some (big ''ACK'')])"
  let ?in2 = "Some (replicate 2 (Some (big ''ACK'')) @ [Some (int_bytes 0), Some (big ''ACK'')])"
  have w: "typed ?line" "words ?line = ?as" using words_line_of [of ?as] typed_line_of [of ?as] line by simp_all
  have packets: "list_all data_packet ?cs" using sender(3) by (rule transferable_packets)
  then have packets': "list_all (\<lambda>p. data_packet p \<and> p \<noteq> []) ?cs"
    using chunks_size by (fastforce simp: list_all_iff)
  have name: "name \<noteq> []" "NUL \<notin> set name" using path(1,3) line(3) by (auto simp: argument_def)
  obtain m where m: "set_value (ns_paths wn) (dir @ ''/'' @ name) n2 = Inr m" "plain_map m"
    "pm_entries m = AList.update (dir @ ''/'' @ name) n2 (pm_entries (ns_paths wn))"
    by (rule set_value_plain [OF naming(2) new, of n2]) (use naming(7,8) in \<open>auto simp: MAX_SS_def\<close>)
  obtain vn where turn: "client_handler_turn c rows (feed c [big ?line] (set_connect [?in1, ?in2] ?k wn)) =
      Done (?rows, False) vn" "ns_paths vn = m" "w_events vn = w_events wn @ ?en"
    using naming_turn_copy [OF naming(1) w line(1,3) naming(12) path(1) name(1) path(2,4) _ naming(3-7) naming(9) m(1)
        print_map_law [OF m(2)] packets', of c] new(2) by auto
  define vc where "vc = emit ?ec (set_in ns [] (set_stdin lines wc))"
  have answer: "client_turn ctime junk ns (feed ns [int_bytes 1, big ''ACK''] wc) = Done False vc"
    using client_turn_executed [of "feed ns [int_bytes 1, big ''ACK''] wc" ?line lines ns ctime junk] client w(1)
    by (simp add: vc_def feed_set_in)
  define vs where "vs = emit ?es (set_in s [] ws)"
  have send: "serve_connection exec stat (si_naming_port si1) cp1 old (si_naming_port si1) s
      (feed s (command_packets [''SEND'', path]) ws) = Done () vs"
    using serve_send_run [of "feed s (command_packets [''SEND'', path]) ws" path folder name content s exec stat
        "si_naming_port si1" cp1 old] line(3) path name sender
    by (simp add: vs_def feed_set_in)
  define vt where "vt = set_file ?f (concat (map cstr ?cs)) (emit ?et (set_in t [] wt))"
  let ?pt = "command_packets [''RECEIVE'', dir] @ buffer (CHUNK_SIZE + 1) name #
      map (buffer (CHUNK_SIZE + 1)) ?cs @ [''STOP'' @ [NUL]]"
  have receive: "serve_connection exec stat (si_naming_port si2) cp2 old (si_naming_port si2) t (feed t ?pt wt) = Done () vt"
    using serve_receive_run [of "feed t ?pt wt" ?cs dir name t exec stat "si_naming_port si2" cp2 old]
      line(3) path name receiver packets
    by (simp add: vt_def feed_set_in)
  have ev: "new_events wc vc = ?ec" "new_events wn vn = ?en" "new_events ws vs = ?es" "new_events wt vt = ?et"
    using turn(3) by (simp_all add: new_events_def vc_def vs_def vt_def)
  have "sends ns ?ec = [big ?line]" "sends c ?en = [int_bytes 1, big ''ACK'']"
    "sends ?k ?en = command_packets [''SEND'', path]" "sends (Suc ?k) ?en = ?pt"
    "Some (map Some (sends s ?es)) = ?in1" "Some (map Some (sends t ?et)) = ?in2"
    using naming(10,11) by simp_all
  then have "copying ns (client_turn ctime junk ns) wc c (client_handler_turn c rows) wn
      s (serve_connection exec stat (si_naming_port si1) cp1 old (si_naming_port si1) s) ws
      t (serve_connection exec stat (si_naming_port si2) cp2 old (si_naming_port si2) t) wt
      False vc (?rows, False) vn () vs () vt"
    unfolding copying_def ev using turn(1) answer send receive by (simp only: simp_thms)
  moreover have "prints ?ec = [''Successfully executed command'']" by simp
  moreover have "w_files vt ?f = Some (File (carried content))" by (simp add: vt_def carried_def)
  ultimately show ?thesis
    unfolding ev [symmetric] using carried_text m(3) turn(2)
    by (intro exI [of _ vc] exI [of _ vn] exI [of _ vs] exI [of _ vt]) (simp add: ev)
qed

theorem copy_session_witness:
  "\<exists>(wn :: naming) vc vn vs vt. get_value (ns_paths wn) ''/e/notes.txt'' = Inr 0 \<and>
     copying 0 (client_turn (\<lambda>_. []) 0 0) (example_client\<lparr>w_stdin := [line_of [''COPY'', ''/e/notes.txt'', ''/d'']]\<rparr>)
       (Suc (Suc (w_next wn))) (client_handler_turn (Suc (Suc (w_next wn))) [[], [], []]) wn
       8 (serve_connection (\<lambda>cmd fs. None) (\<lambda>_. None) 5000 5001 0 5000 8)
         (fresh_storage\<lparr>w_files := [''./e/notes.txt'' \<mapsto> File ''hello'']\<rparr>)
       9 (serve_connection (\<lambda>cmd fs. None) (\<lambda>_. None) 5000 5001 0 5000 9) fresh_storage
       False vc ([''COPY'', ''/e/notes.txt'', ''/d''], False) vn () vs () vt \<and>
     w_files vt ''./d/notes.txt'' = Some (File ''hello'')"
proof -
  let ?as = "[''COPY'', ''/e/notes.txt'', ''/d'']"
  let ?wc = "example_client\<lparr>w_stdin := [line_of ?as]\<rparr>"
  let ?ws = "fresh_storage\<lparr>w_files := [''./e/notes.txt'' \<mapsto> File ''hello'']\<rparr>"
  obtain wn :: naming where n: "get_value (ns_paths wn) ''/e/notes.txt'' = Inr 0" "get_value (ns_paths wn) ''/d'' = Inr 0"
    "server_info 0 wn = Done full_info wn" "w_send_ok wn = []" "plain_map (ns_paths wn)"
    using registered_naming by blast
  let ?c = "Suc (Suc (w_next wn))"
  have c: "w_send_ok ?wc = []" "w_stdin ?wc = [line_of ?as]" by (simp_all add: example_client_def)
  have w: "strcaseeq ''COPY'' ''COPY''" "list_all word ?as" "list_all argument ?as" "length (line_of ?as) < MAX_BUFFER_SIZE"
    by (simp_all add: strcaseeq_def word_def blank_def argument_def NUL_def MAX_BUFFER_SIZE_def)
  have p: "''/e/notes.txt'' = ''/e'' @ ''/'' @ ''notes.txt''" "CHR ''/'' \<notin> set ''notes.txt''" "7 \<le> length ''notes.txt''"
    "length ''notes.txt'' \<le> CHUNK_SIZE" "drop (length ''notes.txt'' - 7) ''notes.txt'' \<noteq> ''.tar.gz''"
    "plain (''/d'' @ ''/'' @ ''notes.txt'')" "length (''/d'' @ ''/'' @ ''notes.txt'') \<le> 4090"
    by (simp_all add: CHUNK_SIZE_def plain_def is_space_def)
  have f: "si_naming_port full_info = 5000" by (simp add: full_info_def example_info_def)
  have "\<exists>vc vn vs vt. copying 0 (client_turn (\<lambda>_. []) 0 0) ?wc ?c (client_handler_turn ?c [[], [], []]) wn
       8 (serve_connection (\<lambda>cmd fs. None) (\<lambda>_. None) (si_naming_port full_info) 5001 0 (si_naming_port full_info) 8) ?ws
       9 (serve_connection (\<lambda>cmd fs. None) (\<lambda>_. None) (si_naming_port full_info) 5001 0 (si_naming_port full_info) 9) fresh_storage
       False vc (?as @ drop 3 [[], [], []], False) vn () vs () vt \<and>
     prints (new_events ?wc vc) = [''Successfully executed command''] \<and>
     w_files vt (''.'' @ ''/d'' @ ''/'' @ ''notes.txt'') = Some (File (carried ''hello'')) \<and>
     (NUL \<notin> set ''hello'' \<longrightarrow> w_files vt (''.'' @ ''/d'' @ ''/'' @ ''notes.txt'') = Some (File ''hello'')) \<and>
     pm_entries (ns_paths vn) = AList.update (''/d'' @ ''/'' @ ''notes.txt'') 0 (pm_entries (ns_paths wn))"
    by (rule copy_session [OF c w p n(4,5,1) _ n(3,2) _ _ n(3)])
       (simp_all add: fresh_storage_def MAX_SS_def transferable_examples)
  then show ?thesis using n(1) unfolding f by (intro exI [of _ wn]) (auto simp: NUL_def)
qed

end
