(* ===== verification/Write_Session.thy ===== *)
theory Write_Session
  imports Sessions
begin

text \<open>
  WRITE from the line typed at the client to the file on the storage server: like READ, with a second
  line typed that names the local file.
\<close>

section \<open>The client\<close>

lemma stdin_fields [simp]:
  "w_stdin (emit es w) = w_stdin w" "w_stdin (set_in s q w) = w_stdin w"
  by (simp_all add: emit_def set_in_def)

lemma set_connect_files [simp]: "w_files (emit es w) = w_files w" "w_files (set_in s q w) = w_files w"
  by (simp_all add: emit_def set_in_def)

lemma client_write_run:
  fixes w :: "'z world_scheme"
  assumes ok: "w_send_ok w = []" and line: "w_stdin w = line # fline # lines" "typed line"
    and local_file: "length fline < PATH_MAX" "scan_s fline = Some name" "w_files w name = Some (File content)"
    and as: "words line = as" "as \<noteq> []" "length as \<le> MAX_ARGS" "list_all argument as"
    and naming: "w_in w ns = map Some (address_packets 3 si)" "info_ok si" "w_next w = k" "ns \<noteq> k"
    and storage: "w_connect w =
      [Some (replicate (length as) (Some (big ''ACK'')) @ replicate (length (chunks content)) (Some ACK_packet) @ q)]"
  shows "client_turn ctime junk ns w = Done False
    (emit (Sent ns (big line) # (Opened k (si_ip si) (si_client_port si) #
        map (Sent k) (command_packets as)) @
        (map (Sent k) (chunks content) @ [Sent k STOP_packet, Closed k]) @ [Printed ''Success''])
      (set_in k q (set_connect [] (Suc k) (set_in ns [] (set_stdin lines w)))))"
proof -
  let ?acks = "replicate (length (chunks content)) (Some ACK_packet) @ q"
  let ?sent = "map (Sent k) (chunks content) @ [Sent k STOP_packet, Closed k]"
  define w1 where "w1 = emit [Sent ns (big line)] (set_in ns [] (set_stdin (fline # lines) w))"
  define w2 where "w2 = emit (Opened k (si_ip si) (si_client_port si) # map (Sent k) (command_packets as))
      (set_in k ?acks (set_connect [] (Suc k) w1))"
  have w1: "w_send_ok w1 = []" "w_next w1 = k"
    "w_connect w1 = Some (replicate (length (words line)) (Some (big ''ACK'')) @ ?acks) # []"
    using ok storage as(1) naming(3) by (simp_all add: w1_def)
  have "connectToStorageServer (si_ip si) (si_client_port si) line w1 = Done k w2"
    using connect_run [OF w1(1,3)] as w1(2) by (simp add: w2_def)
  moreover have "writeClientSide k w2 = Done 1 (set_stdin lines (emit ?sent (set_in k q w2)))"
    unfolding set_stdin_def
    by (rule writeClientSide_run [where line = fline and name = name])
       (use local_file w1(1) in \<open>simp_all add: w2_def w1_def\<close>)
  ultimately have "client_turn ctime junk ns w =
      Done False (emit [Printed ''Success''] (set_stdin lines (emit ?sent (set_in k q w2))))"
    using client_turn_found [OF ok line _ naming(2,1), of ctime junk]
    by (simp add: w1_def [symmetric] io_simps run_simps)
  then show ?thesis by (simp add: w1_def w2_def)
qed

section \<open>The storage server\<close>

lemma writeServerSide_run:
  assumes ok: "w_send_ok w = []" and s: "serves w path i" and sems: "has_sems i 1 1 0 w"
    and free: "\<not> w_locked w (''.'' @ path)" "w_files w (''.'' @ path) \<noteq> Some Dir"
    and packets: "list_all data_packet ps" and input: "w_in w s = map Some ps @ Some STOP_packet # q"
  shows "writeServerSide [cmd, path] 2 s w = Done 1
    (set_file (''.'' @ path) (concat (map cstr ps))
      (emit (replicate (length ps + 1) (Sent s ACK_packet) @ [Closed s]) (set_in s q w)))"
  using write_to_file_run [OF ok free sems packets input] serves_get [OF s] s
  by (simp add: writeServerSide_def io_simps serves_def del: replicate.simps)

lemma locked_normal [simp]: "w_locked (emit es w) = w_locked w" "w_locked (set_in s q w) = w_locked w"
  by (simp_all add: emit_def set_in_def)

lemma serve_write_run:
  assumes ok: "w_send_ok w = []" and cmd: "strcaseeq cmd ''WRITE''" "argument cmd" "argument path"
    and s: "serves w path i" "has_sems i 1 1 0 w" "\<not> w_locked w (''.'' @ path)" "w_files w (''.'' @ path) \<noteq> Some Dir"
    and ports: "cp \<noteq> np" and packets: "list_all data_packet ps"
    and input: "w_in w s = map Some (command_packets [cmd, path] @ ps @ [STOP_packet])"
  shows "serve_connection exec stat np cp old cp s w = Done ()
    (set_file (''.'' @ path) (concat (map cstr ps))
      (emit (replicate 2 (Sent s (big ''ACK'')) @ (replicate (length ps + 1) (Sent s ACK_packet) @ [Closed s]) @ [Closed s])
        (set_in s [] w)))"
proof -
  define w1 where "w1 = emit (replicate 2 (Sent s (big ''ACK''))) (set_in s (map Some (ps @ [STOP_packet])) w)"
  have "writeServerSide [cmd, path] 2 s w1 = Done 1
    (set_file (''.'' @ path) (concat (map cstr ps))
      (emit (replicate (length ps + 1) (Sent s ACK_packet) @ [Closed s]) (set_in s [] w1)))"
    by (rule writeServerSide_run [where i = i]) (use ok s packets in \<open>simp_all add: w1_def\<close>)
  moreover have "\<not> strcaseeq cmd ''READ''" using cmd(1) by (auto simp: strcaseeq_def to_lower_def)
  ultimately have "execClientCommand stat [cmd, path] 2 s w1 = Done 1
    (set_file (''.'' @ path) (concat (map cstr ps))
      (emit (replicate (length ps + 1) (Sent s ACK_packet) @ [Closed s]) (set_in s [] w1)))"
    using cmd(1) by (simp add: execClientCommand_def del: replicate.simps)
  moreover have "serve_connection exec stat np cp old cp s w =
      io_bind (io_bind (execClientCommand stat [cmd, path] 2 s) (\<lambda>_. io_return ())) (\<lambda>_. close_socket s) w1"
    using serve_connection_run [of w "[cmd, path]" s "map Some (ps @ [STOP_packet])" exec stat np cp old cp]
      ok cmd input ports by (simp add: w1_def)
  ultimately show ?thesis by (simp add: io_simps run_simps w1_def del: replicate.simps)
qed

section \<open>The three together\<close>

text \<open>
  Claim C2. WRITE, from the lines typed to the file stored: the client sends the command to the naming
  server, is told the address of the storage server that the path is registered for, connects to
  it and sends it the local file; all three programs finish their turn, the stored file is what the
  transfer carries of the local one (all of it if it has no zero bytes), and the file is idle again.
\<close>

theorem write_session:
  assumes client: "w_send_ok wc = []" "w_stdin wc = line_of [cmd, path] # fline # lines" "ns \<noteq> w_next wc"
      "length fline < PATH_MAX" "scan_s fline = Some name" "w_files wc name = Some (File content)"
      "transferable content"
    and line: "strcaseeq cmd ''WRITE''" "word cmd" "word path" "argument cmd" "argument path"
      "length cmd + length path + 2 < MAX_BUFFER_SIZE"
    and naming: "w_send_ok wn = []" "get_value (ns_paths wn) path = Inr n" "0 \<le> n"
      "server_info n wn = Done si wn" "info_ok si" "2 \<le> length rows"
    and storage: "w_send_ok ws = []" "serves ws path i" "has_sems i 1 1 0 ws"
      "\<not> w_locked ws (''.'' @ path)" "w_files ws (''.'' @ path) \<noteq> Some Dir" "si_client_port si \<noteq> np"
  shows "\<exists>vc vn vs. session ns (client_turn ctime junk ns) wc c (client_handler_turn c rows) wn
      s (serve_connection exec stat np (si_client_port si) old (si_client_port si) s) ws
      False vc ([cmd, path] @ drop 2 rows, False) vn () vs \<and>
    Opened (w_next wc) (si_ip si) (si_client_port si) \<in> set (new_events wc vc) \<and>
    prints (new_events wc vc) = [''Success''] \<and>
    w_files vs (''.'' @ path) = Some (File (carried content)) \<and>
    (NUL \<notin> set content \<longrightarrow> w_files vs (''.'' @ path) = Some (File content)) \<and>
    has_sems i 1 1 0 vs"
proof -
  let ?line = "line_of [cmd, path]" and ?cs = "chunks content" and ?k = "w_next wc" and ?f = "''.'' @ path"
  let ?answers = "replicate (length [cmd, path]) (Some (big ''ACK'')) @
      replicate (length ?cs) (Some ACK_packet) @ [Some ACK_packet]"
  let ?ec = "Sent ns (big ?line) # (Opened ?k (si_ip si) (si_client_port si) #
      map (Sent ?k) (command_packets [cmd, path])) @ (map (Sent ?k) ?cs @ [Sent ?k STOP_packet, Closed ?k]) @ [Printed ''Success'']"
  let ?en = "map (Sent c) (address_packets 3 si)"
  let ?es = "replicate 2 (Sent s (big ''ACK'')) @ (replicate (length ?cs + 1) (Sent s ACK_packet) @ [Closed s]) @ [Closed s]"
  have w: "typed ?line" "words ?line = [cmd, path]"
    using words_line_of [of "[cmd, path]"] typed_line_of [of "[cmd, path]"] line by simp_all
  let ?c0 = "feed ns (address_packets 3 si) (set_connect [Some ?answers] ?k wc)"
  define vc where "vc = emit ?ec (set_in ?k [Some ACK_packet] (set_connect [] (Suc ?k) (set_in ns [] (set_stdin lines ?c0))))"
  define vn where "vn = emit ?en (set_in c [] wn)"
  define vs where "vs = set_file ?f (concat (map cstr ?cs)) (emit ?es (set_in s [] ws))"
  have "client_turn ctime junk ns ?c0 = Done False vc"
    unfolding vc_def
    by (rule client_write_run [OF _ _ w(1) _ _ _ w(2), where fline = fline and name = name])
       (use client line naming(5) in \<open>simp_all add: feed_set_in MAX_ARGS_def\<close>)
  moreover have "client_handler_turn c rows (feed c [big ?line] wn) = Done ([cmd, path] @ drop 2 rows, False) vn"
    using naming_turn_address [of "feed c [big ?line] wn" ?line cmd path "[]" rows 3 n si c "[]"]
      w line naming
    by (simp add: vn_def feed_set_in address_command_def rows_ready_def server_info_def io_simps
        numeral_2_eq_2 split: if_splits)
  moreover have "serve_connection exec stat np (si_client_port si) old (si_client_port si) s
      (feed s (command_packets [cmd, path] @ ?cs @ [STOP_packet]) ws) = Done () vs"
    using serve_write_run [of "feed s (command_packets [cmd, path] @ ?cs @ [STOP_packet]) ws"
        cmd path i "si_client_port si" np ?cs s exec stat old] line storage transferable_packets [OF client(7)]
    by (simp add: vs_def feed_set_in del: replicate.simps)
  moreover have ev: "new_events wc vc = ?ec" "new_events wn vn = ?en" "new_events ws vs = ?es"
    by (simp_all add: new_events_def vc_def vn_def vs_def feed_set_in set_file_def del: replicate.simps)
  moreover have "sends ns ?ec = [big ?line]" "sends c ?en = address_packets 3 si"
    "sends ?k ?ec = command_packets [cmd, path] @ ?cs @ [STOP_packet]" "map Some (sends s ?es) = ?answers"
    using client(3) by (simp_all add: replicate_app_Cons_same)
  ultimately have "session ns (client_turn ctime junk ns) wc c (client_handler_turn c rows) wn
      s (serve_connection exec stat np (si_client_port si) old (si_client_port si) s) ws
      False vc ([cmd, path] @ drop 2 rows, False) vn () vs"
    unfolding session_def ev by (simp only: simp_thms)
  moreover have "prints ?ec = [''Success'']" by simp
  moreover have "has_sems i 1 1 0 vs" using storage(3) by (simp add: vs_def)
  moreover have "w_files vs ?f = Some (File (carried content))" by (simp add: vs_def carried_def)
  ultimately show ?thesis
    unfolding ev [symmetric] using carried_text
    by (intro exI [of _ vc] exI [of _ vn] exI [of _ vs]) (simp add: ev)
qed

theorem write_session_witness:
  "\<exists>(wn :: naming) (ws :: storage) vc vn vs. get_value (ns_paths wn) ''/a.txt'' = Inr 0 \<and> serves ws ''/a.txt'' 0 \<and>
     session 0 (client_turn (\<lambda>_. []) 0 0)
         (example_client\<lparr>w_stdin := [line_of [''WRITE'', ''/a.txt''], ''./b.txt'' @ [CHR 0x0A]]\<rparr>)
       7 (client_handler_turn 7 [[], []]) wn
       8 (serve_connection (\<lambda>cmd fs. None) (\<lambda>_. None) 5000 5001 0 5001 8) ws
       False vc ([''WRITE'', ''/a.txt''], False) vn () vs \<and>
     w_files vs ''./a.txt'' = Some (File ''bye'')"
proof -
  let ?fline = "''./b.txt'' @ [CHR 0x0A]"
  let ?wc = "example_client\<lparr>w_stdin := [line_of [''WRITE'', ''/a.txt''], ?fline]\<rparr>"
  obtain wn :: naming where n: "get_value (ns_paths wn) ''/a.txt'' = Inr 0" "server_info 0 wn = Done full_info wn" "w_send_ok wn = []"
    using registered_naming by blast
  obtain ws :: storage where s: "serves ws ''/a.txt'' 0" "has_sems 0 1 1 0 ws" "w_send_ok ws = []"
    "\<not> w_locked ws ''./a.txt''" "w_files ws ''./a.txt'' = Some (File ''hello'')" using serving_storage by blast
  have c: "w_send_ok ?wc = []" "w_stdin ?wc = [line_of [''WRITE'', ''/a.txt''], ?fline]" "0 \<noteq> w_next ?wc"
    "length ?fline < PATH_MAX" "scan_s ?fline = Some ''./b.txt''" "w_files ?wc ''./b.txt'' = Some (File ''bye'')"
    by (simp_all add: example_client_def scan_s_def skip_space_def is_space_def)
  have w: "strcaseeq ''WRITE'' ''WRITE''" "word ''WRITE''" "word ''/a.txt''" "argument ''WRITE''" "argument ''/a.txt''"
    by (simp_all add: strcaseeq_def to_lower_def word_def blank_def argument_def NUL_def)
  have f: "si_client_port full_info = 5001" by (simp add: full_info_def example_info_def)
  have "\<exists>vc vn vs. session 0 (client_turn (\<lambda>_. []) 0 0) ?wc 7 (client_handler_turn 7 [[], []]) wn
       8 (serve_connection (\<lambda>cmd fs. None) (\<lambda>_. None) 5000 (si_client_port full_info) 0 (si_client_port full_info) 8) ws
       False vc ([''WRITE'', ''/a.txt''] @ drop 2 [[], []], False) vn () vs \<and>
     Opened (w_next ?wc) (si_ip full_info) (si_client_port full_info) \<in> set (new_events ?wc vc) \<and>
     prints (new_events ?wc vc) = [''Success''] \<and>
     w_files vs (''.'' @ ''/a.txt'') = Some (File (carried ''bye'')) \<and>
     (NUL \<notin> set ''bye'' \<longrightarrow> w_files vs (''.'' @ ''/a.txt'') = Some (File ''bye'')) \<and> has_sems 0 1 1 0 vs"
    by (rule write_session [OF c transferable_examples(2) w _ n(3,1) _ n(2) full_info_ok _ s(3,1,2)])
       (simp_all add: f s(4,5) MAX_BUFFER_SIZE_def)
  then show ?thesis using n(1) s(1) unfolding f by (intro exI [of _ wn] exI [of _ ws]) (auto simp: NUL_def)
qed

end
