(* ===== verification/Delete_Session.thy ===== *)
theory Delete_Session
  imports Create_Session
begin

text \<open>
  DELETE from the line typed at the client to the answer printed, carried out by the storage server
  on behalf of the naming server, like CREATE.
\<close>

section \<open>The naming server\<close>

lemma remove_path_run:
  assumes "remove_entry (ns_paths w) p = Inr m"
  shows "remove_path p w = Done () (set_paths m w)"
  using assms by (simp add: remove_path_def set_paths_def io_simps)

lemma delete_run:
  assumes ok: "w_send_ok w = []" and cmd: "strcaseeq cmd ''DELETE''" and rows: "take 2 rows = [cmd, path]"
    and get: "get_value (ns_paths w) path = Inr n" "0 \<le> n" "server_info n w = Done si w"
    and map: "remove_entry (ns_paths w) path = Inr m" "print_map m = Inr out"
    and connect: "w_next w = k"
      "w_connect w = [Some (replicate (length [cmd, path]) (Some (big ''ACK'')) @ [Some (big ''ACK'')])]"
  shows "create_delete c rows 2 w = Done ()
    (emit (Sent c (int_bytes 1) # (Opened k (si_ip si) (si_naming_port si) #
        map (Sent k) (command_packets [cmd, path]) @ [Closed k]) @ [Sent c (big ''ACK'')])
      (set_in k [] (set_connect [] (Suc k) (set_paths m w))))"
proof -
  have nth: "rows ! 0 = cmd" "rows ! 1 = path"
    using rows by (cases rows; cases "tl rows"; simp add: numeral_2_eq_2; fastforce)+
  have info: "server_info n (emit es w) = Done si (emit es w)" for es
    using get(3) by (simp add: server_info_def io_simps split: if_splits)
  define w1 where "w1 = emit [Sent c (int_bytes 1)] w"
  have res: "getResultsFromSS (si_ip si) (si_naming_port si) rows 2 w1 = Done 1
    (emit (Opened k (si_ip si) (si_naming_port si) # map (Sent k) (command_packets [cmd, path]) @ [Closed k])
      (set_in k [] (set_connect [] (Suc k) w1)))"
    by (rule getResults_run [OF _ _ _ rows]) (use ok connect in \<open>simp_all add: w1_def\<close>)
  define w2 where "w2 = emit (Opened k (si_ip si) (si_naming_port si) #
      map (Sent k) (command_packets [cmd, path]) @ [Closed k]) (set_in k [] (set_connect [] (Suc k) w1))"
  have "remove_path path w2 = Done () (set_paths m w2)"
    by (rule remove_path_run) (use map in \<open>simp add: w1_def w2_def\<close>)
  moreover have "show_paths (set_paths m w2) = Done () (set_paths m w2)"
    by (rule show_paths_run) (use map in simp)
  moreover have "w_send_ok w2 = []" using ok by (simp add: w1_def w2_def)
  moreover have "\<not> strcaseeq cmd ''CREATE''" using cmd by (auto simp: strcaseeq_def to_lower_def)
  ultimately show ?thesis
    using ok cmd get(1,2) info res nth unfolding w2_def w1_def
    by (simp add: create_delete_def path_server_def reply_def io_simps run_simps Let_def)
qed

lemma naming_turn_delete:
  assumes ok: "w_send_ok w = []" and line: "typed line" "words line = [cmd, path]" "rows_ready rows [cmd, path]"
    and cmd: "strcaseeq cmd ''DELETE''"
    and get: "get_value (ns_paths w) path = Inr n" "0 \<le> n" "server_info n w = Done si w"
    and map: "remove_entry (ns_paths w) path = Inr m" "print_map m = Inr out"
    and connect: "w_next w = k"
      "w_connect w = [Some (replicate (length [cmd, path]) (Some (big ''ACK'')) @ [Some (big ''ACK'')])]"
    and input: "w_in w c = [Some (big line)]"
  shows "client_handler_turn c rows w = Done ([cmd, path] @ drop 2 rows, False)
    (emit (Sent c (int_bytes 1) # (Opened k (si_ip si) (si_naming_port si) #
        map (Sent k) (command_packets [cmd, path]) @ [Closed k]) @ [Sent c (big ''ACK'')])
      (set_in k [] (set_connect [] (Suc k) (set_paths m (set_in c [] w)))))"
proof -
  let ?rows = "[cmd, path] @ drop 2 rows"
  define w1 where "w1 = set_in c [] w"
  have info: "server_info n w1 = Done si w1" using get(3) by (simp add: w1_def server_info_def io_simps split: if_splits)
  have "create_delete c ?rows 2 w1 = Done ()
    (emit (Sent c (int_bytes 1) # (Opened k (si_ip si) (si_naming_port si) #
        map (Sent k) (command_packets [cmd, path]) @ [Closed k]) @ [Sent c (big ''ACK'')])
      (set_in k [] (set_connect [] (Suc k) (set_paths m w1))))"
    by (rule delete_run [where n = n]) (use ok cmd get map connect info in \<open>simp_all add: w1_def\<close>)
  then show ?thesis
    using ok cmd line input processCommand_ready [of rows line] unfolding w1_def
    by (simp add: client_handler_turn_defs io_simps run_simps numeral_2_eq_2)
qed

section \<open>The storage server\<close>

definition deleted :: "files \<Rightarrow> hashmap \<Rightarrow> 'z storage_scheme \<Rightarrow> 'z storage_scheme" where
  "deleted fs m w = w\<lparr>w_files := fs, ss_path_to_sem := m\<rparr>"

lemma deleted_fields [simp]:
  "w_send_ok (deleted fs m w) = w_send_ok w" "w_events (deleted fs m w) = w_events w"
  "w_in (deleted fs m w) = w_in w" "deleted fs m (emit es w) = emit es (deleted fs m w)"
  "deleted fs m (set_in s q w) = set_in s q (deleted fs m w)" "ss_path_to_sem (deleted fs m w) = m"
  "w_files (deleted fs m w) = fs"
  by (simp_all add: deleted_def emit_def set_in_def)

text \<open>The command line that DELETE runs.\<close>

definition delete_command :: "string \<Rightarrow> string list" where
  "delete_command path =
     (if has_extension path then [''rm'', ''.'' @ path] else [''rm'', ''-rf'', ''.'' @ path])"

lemma serve_delete_run:
  assumes ok: "w_send_ok w = []" "plain_map (ss_path_to_sem w)" and cmd: "strcaseeq cmd ''DELETE''"
    and args: "list_all argument [cmd, path]" and name: "length path < PATH_MAX - 1"
    and run: "exec (delete_command path) (w_files w) = Some (fs, True)"
    and input: "w_in w s = map Some (command_packets [cmd, path])"
  shows "\<exists>m. serve_connection exec stat np cp junk np s w = Done ()
      (emit (replicate 2 (Sent s (big ''ACK'')) @ [Sent s (big ''ACK''), Closed s]) (set_in s [] (deleted fs m w))) \<and>
    pm_entries m = filter (\<lambda>(q, v). q \<noteq> path \<and> \<not> prefix (path @ ''/'') q) (registered w)"
proof -
  let ?as = "[cmd, path]"
  define w1 where "w1 = emit (replicate 2 (Sent s (big ''ACK''))) (set_in s [] w)"
  have "plain_map (ss_path_to_sem w1)" using ok(2) by (simp add: w1_def)
  with delete_law [of w1 path exec fs] name run obtain m where
    m: "deleteItem exec path w1 = Done 1 (deleted fs m w1)"
    "pm_entries m = filter (\<lambda>(q, v). \<not> at_or_below path q) (registered w1)"
    by (auto simp: w1_def delete_command_def deleted_def)
  have "\<not> strcaseeq cmd ''CREATE''" using cmd by (auto simp: strcaseeq_def to_lower_def)
  then have "execCommand exec ?as 2 s w1 = Done 1 (deleted fs m w1)"
    using m(1) cmd by (simp add: execCommand_def runDelete_def io_simps)
  moreover have "serve_connection exec stat np cp junk np s w =
      io_bind (io_bind (execCommand exec ?as 2 s) (\<lambda>result.
        send_or_exit s (big (if result = 1 then ''ACK'' else ''FAIL'')))) (\<lambda>_. close_socket s) w1"
    using serve_connection_run [of w ?as s "[]" exec stat np cp junk np] ok args input
    by (simp add: w1_def)
  moreover have "w_send_ok (deleted fs m w1) = []" using ok(1) by (simp add: w1_def)
  ultimately have "serve_connection exec stat np cp junk np s w =
      Done () (emit [Sent s (big ''ACK''), Closed s] (deleted fs m w1))"
    by (simp add: io_simps run_simps)
  with m(2) show ?thesis by (intro exI [of _ m]) (simp add: w1_def at_or_below_iff)
qed

section \<open>The three together\<close>

text \<open>
  Claim C4. DELETE, from the line typed to the answer printed: the storage server that the path is
  registered for runs rm, storage server and naming server both forget the path and everything
  below it and keep all other paths, and the client is told of the success.
\<close>

theorem delete_session:
  assumes client: "w_send_ok wc = []" "w_stdin wc = line_of [cmd, path] # lines"
    and line: "strcaseeq cmd ''DELETE''" "list_all word [cmd, path]" "list_all argument [cmd, path]"
      "length (line_of [cmd, path]) < MAX_BUFFER_SIZE" "length path < PATH_MAX - 1"
    and naming: "w_send_ok wn = []" "plain_map (ns_paths wn)" "get_value (ns_paths wn) path = Inr n"
      "0 \<le> n" "server_info n wn = Done si wn" "c \<noteq> w_next wn" "2 \<le> length rows"
    and storage: "w_send_ok ws = []" "plain_map (ss_path_to_sem ws)"
      "exec (delete_command path) (w_files ws) = Some (fs, True)"
  shows "\<exists>vc vn vs. relay ns (client_turn ctime junk ns) wc c (client_handler_turn c rows) wn
      s (serve_connection exec stat (si_naming_port si) cp old (si_naming_port si) s) ws
      False vc ([cmd, path] @ drop 2 rows, False) vn () vs \<and>
    prints (new_events wc vc) = [''Successfully executed command''] \<and>
    pm_entries (ns_paths vn) = filter (\<lambda>(q, v). q \<noteq> path \<and> \<not> prefix (path @ ''/'') q) (pm_entries (ns_paths wn)) \<and>
    registered vs = filter (\<lambda>(q, v). q \<noteq> path \<and> \<not> prefix (path @ ''/'') q) (registered ws) \<and>
    w_files vs = fs"
proof -
  let ?as = "[cmd, path]" and ?k = "w_next wn"
  let ?line = "line_of ?as"
  let ?ec = "[Sent ns (big ?line), Printed ''Successfully executed command'']"
  let ?en = "Sent c (int_bytes 1) # (Opened ?k (si_ip si) (si_naming_port si) #
        map (Sent ?k) (command_packets ?as) @ [Closed ?k]) @ [Sent c (big ''ACK'')]"
  let ?es = "replicate 2 (Sent s (big ''ACK'')) @ [Sent s (big ''ACK''), Closed s]"
  let ?answers = "replicate (length ?as) (Some (big ''ACK'')) @ [Some (big ''ACK'')]"
  have w: "typed ?line" "words ?line = ?as" using words_line_of [of ?as] typed_line_of [of ?as] line by simp_all
  obtain m where m: "remove_entry (ns_paths wn) path = Inr m" "plain_map m"
    "pm_entries m = filter (\<lambda>(q, v). \<not> at_or_below path q) (pm_entries (ns_paths wn))"
    using remove_entry_law [OF naming(2), of path] by blast
  let ?n0 = "feed c [big ?line] (set_connect [Some ?answers] ?k wn)"
  define vn where "vn = emit ?en (set_in ?k [] (set_connect [] (Suc ?k) (set_paths m (set_in c [] ?n0))))"
  have turn: "client_handler_turn c rows ?n0 = Done (?as @ drop 2 rows, False) vn"
    unfolding vn_def
    by (rule naming_turn_delete [OF _ w _ line(1) _ naming(4) _ _ print_map_law [OF m(2)]])
       (use line naming m in \<open>simp_all add: feed_set_in rows_ready_def server_info_def io_simps split: if_splits\<close>)
  define vc where "vc = emit ?ec (set_in ns [] (set_stdin lines wc))"
  have answer: "client_turn ctime junk ns (feed ns [int_bytes 1, big ''ACK''] wc) = Done False vc"
    using client_turn_executed [of "feed ns [int_bytes 1, big ''ACK''] wc" ?line lines ns ctime junk] client w(1)
    by (simp add: vc_def feed_set_in)
  obtain m' where m': "serve_connection exec stat (si_naming_port si) cp old (si_naming_port si) s
      (feed s (command_packets ?as) ws) = Done () (emit ?es (set_in s [] (deleted fs m' ws)))"
    "pm_entries m' = filter (\<lambda>(q, v). q \<noteq> path \<and> \<not> prefix (path @ ''/'') q) (registered ws)"
    using serve_delete_run [of "feed s (command_packets ?as) ws" cmd path exec fs s stat "si_naming_port si" cp old]
      line storage
    by (auto simp: feed_set_in)
  define vs where "vs = emit ?es (set_in s [] (deleted fs m' ws))"
  have ev: "new_events wc vc = ?ec" "new_events wn vn = ?en" "new_events ws vs = ?es"
    by (simp_all add: new_events_def vc_def vn_def vs_def feed_set_in)
  have "sends ns ?ec = [big ?line]" "sends c ?en = [int_bytes 1, big ''ACK'']" "sends ?k ?en = command_packets ?as"
    "map Some (sends s ?es) = ?answers"
    using naming(6) by simp_all
  then have "relay ns (client_turn ctime junk ns) wc c (client_handler_turn c rows) wn
      s (serve_connection exec stat (si_naming_port si) cp old (si_naming_port si) s) ws
      False vc (?as @ drop 2 rows, False) vn () vs"
    unfolding relay_def ev using turn answer m'(1) by (simp only: vs_def simp_thms)
  moreover have "prints ?ec = [''Successfully executed command'']" by simp
  moreover have "ns_paths vn = m" by (simp add: vn_def feed_set_in)
  ultimately show ?thesis
    unfolding ev [symmetric] using m(3) m'(2)
    by (intro exI [of _ vc] exI [of _ vn] exI [of _ vs]) (simp add: ev vs_def at_or_below_iff)
qed

theorem delete_session_witness:
  "\<exists>(wn :: naming) vc vn vs. get_value (ns_paths wn) ''/d'' = Inr 0 \<and>
     relay 0 (client_turn (\<lambda>_. []) 0 0) (example_client\<lparr>w_stdin := [line_of [''DELETE'', ''/d'']]\<rparr>)
       (Suc (w_next wn)) (client_handler_turn (Suc (w_next wn)) [[], []]) wn
       8 (serve_connection (\<lambda>cmd fs. Some (fs, True)) (\<lambda>_. None) 5000 5001 0 5000 8) fresh_storage
       False vc ([''DELETE'', ''/d''], False) vn () vs \<and>
     pm_entries (ns_paths vn) = filter (\<lambda>(q, v). q \<noteq> ''/d'' \<and> \<not> prefix ''/d/'' q) (pm_entries (ns_paths wn))"
proof -
  let ?as = "[''DELETE'', ''/d'']"
  let ?wc = "example_client\<lparr>w_stdin := [line_of ?as]\<rparr>"
  obtain wn :: naming where n: "get_value (ns_paths wn) ''/d'' = Inr 0" "server_info 0 wn = Done full_info wn"
    "w_send_ok wn = []" "plain_map (ns_paths wn)"
    using registered_naming by blast
  have c: "w_send_ok ?wc = []" "w_stdin ?wc = [line_of ?as]" by (simp_all add: example_client_def)
  have w: "strcaseeq ''DELETE'' ''DELETE''" "list_all word ?as" "list_all argument ?as"
    "length (line_of ?as) < MAX_BUFFER_SIZE" "length ''/d'' < PATH_MAX - 1"
    by (simp_all add: strcaseeq_def word_def blank_def argument_def NUL_def MAX_BUFFER_SIZE_def)
  have f: "si_naming_port full_info = 5000" by (simp add: full_info_def example_info_def)
  have "\<exists>vc vn vs. relay 0 (client_turn (\<lambda>_. []) 0 0) ?wc
       (Suc (w_next wn)) (client_handler_turn (Suc (w_next wn)) [[], []]) wn
       8 (serve_connection (\<lambda>cmd fs. Some (fs, True)) (\<lambda>_. None) (si_naming_port full_info) 5001 0
         (si_naming_port full_info) 8) fresh_storage
       False vc (?as @ drop 2 [[], []], False) vn () vs \<and>
     prints (new_events ?wc vc) = [''Successfully executed command''] \<and>
     pm_entries (ns_paths vn) = filter (\<lambda>(q, v). q \<noteq> ''/d'' \<and> \<not> prefix (''/d'' @ ''/'') q) (pm_entries (ns_paths wn)) \<and>
     registered vs = filter (\<lambda>(q, v). q \<noteq> ''/d'' \<and> \<not> prefix (''/d'' @ ''/'') q) (registered fresh_storage) \<and>
     w_files vs = w_files fresh_storage"
    by (rule delete_session [OF c w n(3,4,1) _ n(2)])
       (use fresh_storage(1) in \<open>simp_all add: storage_ok_def\<close>, simp add: fresh_storage_def)
  then show ?thesis using n(1) unfolding f by (intro exI [of _ wn]) auto
qed

end
