(* ===== verification/Details_Session.thy ===== *)
theory Details_Session
  imports Sessions
begin

text \<open>
  DETAILS from the line typed at the client to the fields printed: like READ up to the connection to
  the storage server, which then answers with one line of text that the client takes apart again.
\<close>

section \<open>The line of text\<close>

text \<open>The numbers \<^verbatim>\<open>stat\<close> fills in have the widths of their types.\<close>

definition stat_ok :: "int \<times> int \<times> int \<times> int \<times> int \<Rightarrow> bool" where
  "stat_ok st =
     (case st of (sz, mode, uid, gid, mtime) \<Rightarrow>
        \<bar>sz\<bar> < 2 ^ 63 \<and> 0 \<le> mode \<and> mode < 2 ^ 32 \<and> \<bar>uid\<bar> \<le> 2 ^ 31 \<and> \<bar>gid\<bar> \<le> 2 ^ 31 \<and> \<bar>mtime\<bar> < 2 ^ 63)"

lemma show_oct_length: "n < 8 ^ k \<Longrightarrow> 0 < k \<Longrightarrow> length (show_oct n) \<le> k"
proof (induction k arbitrary: n)
  case (Suc k)
  show ?case
  proof (cases "n < 8")
    case False
    then have "0 < k" "n div 8 < 8 ^ k" using Suc.prems by (cases k; simp add: less_mult_imp_div_less mult.commute)+
    with Suc.IH False show ?thesis by (subst show_oct.simps) simp
  qed (simp add: show_oct.simps)
qed simp

lemma show_int_length: "\<bar>i\<bar> < 10 ^ k \<Longrightarrow> 0 < k \<Longrightarrow> length (show_int i) \<le> Suc k"
proof -
  assume i: "\<bar>i\<bar> < 10 ^ k" "0 < k"
  then have "nat \<bar>i\<bar> < 10 ^ k" by (metis abs_ge_zero nat_less_iff of_nat_numeral of_nat_power)
  from show_nat_length [OF this i(2)] show ?thesis by (auto simp: show_int_def)
qed

lemma show_oct_digits: "\<forall>c\<in>set (show_oct n). is_digit c"
proof (induction n rule: show_oct.induct)
  case (1 n)
  then show ?case by (subst show_oct.simps) auto
qed

lemma NUL_no_digit [simp]: "\<not> is_digit NUL"
  by (simp add: is_digit_def NUL_def)

lemma NUL_no_number [simp]: "NUL \<notin> set (show_int i)" "NUL \<notin> set (show_oct n)"
proof -
  have "NUL \<noteq> CHR ''-''" by (simp add: NUL_def)
  then show "NUL \<notin> set (show_int i)" using show_int_chars [of NUL] NUL_no_digit by blast
  show "NUL \<notin> set (show_oct n)" using show_oct_digits [of n] NUL_no_digit by blast
qed

lemma details_text_NUL: "NUL \<notin> set name \<Longrightarrow> NUL \<notin> set (details_text name st)"
proof -
  have "NUL \<noteq> CHR '' ''" by (simp add: NUL_def)
  then show "NUL \<notin> set name \<Longrightarrow> ?thesis" by (cases st) (simp add: details_text_def)
qed

lemma details_text_length:
  assumes "stat_ok st" and "length name < PATH_MAX"
  shows "length (details_text name st) < MAX_BUFFER_SIZE"
proof -
  obtain sz mode uid gid mtime where st: "st = (sz, mode, uid, gid, mtime)" by (cases st)
  have "length (show_int sz) \<le> 20" "length (show_int mtime) \<le> 20"
    "length (show_int uid) \<le> 11" "length (show_int gid) \<le> 11" "length (show_oct (nat mode)) \<le> 11"
    using assms(1) st show_int_length [of _ 19] show_int_length [of _ 10] show_oct_length [of "nat mode" 11]
    by (force simp: stat_ok_def)+
  with assms(2) show ?thesis by (simp add: st details_text_def MAX_BUFFER_SIZE_def)
qed

section \<open>The storage server\<close>

lemma serve_details_run:
  assumes ok: "w_send_ok w = []" and cmd: "strcaseeq cmd ''DETAILS''" "argument cmd" "argument path"
    and path: "path = dir @ ''/'' @ name" "name \<noteq> []" "CHR ''/'' \<notin> set name" "stat (''.'' @ path) = Some st"
    and ports: "cp \<noteq> np"
    and input: "w_in w s = map Some (command_packets [cmd, path] @ [big ''ACK''])"
  shows "serve_connection exec stat np cp old cp s w = Done ()
    (emit (replicate 2 (Sent s (big ''ACK'')) @ [Sent s (details_text name st), Closed s]) (set_in s [] w))"
proof -
  define w1 where "w1 = emit (replicate 2 (Sent s (big ''ACK''))) (set_in s [Some (big ''ACK'')] w)"
  have "length name < PATH_MAX" using cmd(3) path(1) by (simp add: argument_def)
  then have "fileDetailsServerSide stat [cmd, path] 2 s w1 = Done 1 (emit [Sent s (details_text name st)] (set_in s [] w1))"
    using ok path(4) basename_of [OF path(2,3), of "''.'' @ dir"] path(1)
    by (simp add: fileDetailsServerSide_def get_file_details_def io_simps run_simps Let_def w1_def)
  moreover have "\<not> strcaseeq cmd ''READ''" "\<not> strcaseeq cmd ''WRITE''"
    using cmd(1) by (auto simp: strcaseeq_def to_lower_def)
  ultimately have "execClientCommand stat [cmd, path] 2 s w1 = Done 1 (emit [Sent s (details_text name st)] (set_in s [] w1))"
    using cmd(1) by (simp add: execClientCommand_def)
  moreover have "serve_connection exec stat np cp old cp s w =
      io_bind (io_bind (execClientCommand stat [cmd, path] 2 s) (\<lambda>_. io_return ())) (\<lambda>_. close_socket s) w1"
    using serve_connection_run [of w "[cmd, path]" s "[Some (big ''ACK'')]" exec stat np cp old cp] ok cmd input ports
    by (simp add: w1_def)
  ultimately show ?thesis by (simp add: io_simps run_simps w1_def)
qed

section \<open>The client\<close>

definition shown_details :: "(int \<Rightarrow> string) \<Rightarrow> string \<Rightarrow> int \<times> int \<times> int \<times> int \<times> int \<Rightarrow> string list" where
  "shown_details ctime name st =
     (case st of (sz, mode, uid, gid, mtime) \<Rightarrow>
        [name, show_int sz, show_oct (nat mode), show_int uid, show_int gid, ctime mtime])"

lemma fileDetailsClientSide_run:
  assumes ok: "w_send_ok w = []" and st: "stat_ok st" "length (ctime (snd (snd (snd (snd st))))) < 50"
    and name: "plain name" "NUL \<notin> set name" "length name < PATH_MAX"
    and input: "w_in w s = Some (details_text name st) # q"
  shows "fileDetailsClientSide ctime s w = Done 1
    (emit (map Printed (shown_details ctime name st) @ [Sent s (big ''ACK''), Closed s]) (set_in s q w))"
proof -
  obtain sz mode uid gid mtime where eq: "st = (sz, mode, uid, gid, mtime)" by (cases st)
  have "buffer_string MAX_BUFFER_SIZE (details_text name st) = Inr (details_text name st)"
    using details_text_length [OF st(1) name(3)] details_text_NUL [OF name(2)] by (rule buffer_string_short [rotated])
  moreover have "scan_details (details_text name st) = Some (name, sz, mode, uid, gid, mtime)"
    using details_roundtrip [OF name(1)] st(1) by (simp add: eq stat_ok_def)
  moreover have "length (details_text name st) \<le> MAX_BUFFER_SIZE" using details_text_length [OF st(1) name(3)] by simp
  moreover have "\<not> 50 \<le> length (ctime mtime)" using st(2) by (simp add: eq)
  ultimately show ?thesis using ok name(3) input
    by (simp add: fileDetailsClientSide_def shown_details_def recv_or_0_def send_or_0_def eq io_simps run_simps)
qed

lemma client_details_run:
  fixes w :: "'z world_scheme"
  assumes ok: "w_send_ok w = []" and line: "w_stdin w = line # lines" "typed line"
    and as: "words line = as" "as \<noteq> []" "length as \<le> MAX_ARGS" "list_all argument as"
    and naming: "w_in w ns = map Some (address_packets 4 si)" "info_ok si" "w_next w = k" "ns \<noteq> k"
    and st: "stat_ok st" "length (ctime (snd (snd (snd (snd st))))) < 50" and name: "plain name" "NUL \<notin> set name" "length name < PATH_MAX"
    and storage: "w_connect w = [Some (replicate (length as) (Some (big ''ACK'')) @ [Some (details_text name st)])]"
  shows "client_turn ctime junk ns w = Done False
    (emit (Sent ns (big line) # (Opened k (si_ip si) (si_client_port si) # map (Sent k) (command_packets as)) @
        (map Printed (shown_details ctime name st) @ [Sent k (big ''ACK''), Closed k]) @ [Printed ''Success''])
      (set_in k [] (set_connect [] (Suc k) (set_in ns [] (set_stdin lines w)))))"
proof -
  let ?data = "[Some (details_text name st)]"
  let ?shown = "map Printed (shown_details ctime name st) @ [Sent k (big ''ACK''), Closed k]"
  define w1 where "w1 = emit [Sent ns (big line)] (set_in ns [] (set_stdin lines w))"
  define w2 where "w2 = emit (Opened k (si_ip si) (si_client_port si) # map (Sent k) (command_packets as))
      (set_in k ?data (set_connect [] (Suc k) w1))"
  have w1: "w_send_ok w1 = []" "w_next w1 = k"
    "w_connect w1 = Some (replicate (length (words line)) (Some (big ''ACK'')) @ ?data) # []"
    using ok storage as(1) naming(3) by (simp_all add: w1_def)
  have "connectToStorageServer (si_ip si) (si_client_port si) line w1 = Done k w2"
    using connect_run [OF w1(1,3)] as w1(2) by (simp add: w2_def)
  moreover have "fileDetailsClientSide ctime k w2 = Done 1 (emit ?shown (set_in k [] w2))"
    by (rule fileDetailsClientSide_run [where ctime = ctime and st = st, OF _ st name]) (use w1(1) in \<open>simp_all add: w2_def\<close>)
  ultimately have "client_turn ctime junk ns w =
      Done False (emit [Printed ''Success''] (emit ?shown (set_in k [] w2)))"
    using client_turn_found [OF ok line _ naming(2,1), of ctime junk]
    by (simp add: w1_def [symmetric] io_simps run_simps)
  then show ?thesis by (simp add: w1_def w2_def)
qed

section \<open>The three together\<close>

lemma printed_events [simp]: "sends s (map Printed ls) = []" "prints (map Printed ls) = ls"
  by (induction ls) simp_all

text \<open>
  Claim C6. DETAILS, from the line typed to the fields printed: the client is told the address of the
  storage server that the path is registered for, connects to it, and prints the name, the size, the
  mode in octal, the numbers of owner and group and the time that \<^verbatim>\<open>stat\<close> gives there; all three
  programs finish their turn.
\<close>

theorem details_session:
  assumes client: "w_send_ok wc = []" "w_stdin wc = line_of [cmd, path] # lines" "ns \<noteq> w_next wc"
      "length (ctime mtime) < 50"
    and line: "strcaseeq cmd ''DETAILS''" "word cmd" "word path" "argument cmd" "argument path"
      "length cmd + length path + 2 < MAX_BUFFER_SIZE"
    and path: "path = dir @ ''/'' @ name" "CHR ''/'' \<notin> set name" "plain name"
    and naming: "w_send_ok wn = []" "get_value (ns_paths wn) path = Inr n" "0 \<le> n"
      "server_info n wn = Done si wn" "info_ok si" "2 \<le> length rows"
    and storage: "w_send_ok ws = []" "stat (''.'' @ path) = Some (sz, mode, uid, gid, mtime)"
      "stat_ok (sz, mode, uid, gid, mtime)" "si_client_port si \<noteq> np"
  shows "\<exists>vc vn vs. session ns (client_turn ctime junk ns) wc c (client_handler_turn c rows) wn
      s (serve_connection exec stat np (si_client_port si) old (si_client_port si) s) ws
      False vc ([cmd, path] @ drop 2 rows, False) vn () vs \<and>
    Opened (w_next wc) (si_ip si) (si_client_port si) \<in> set (new_events wc vc) \<and>
    prints (new_events wc vc) =
      [name, show_int sz, show_oct (nat mode), show_int uid, show_int gid, ctime mtime, ''Success'']"
proof -
  let ?line = "line_of [cmd, path]" and ?k = "w_next wc" and ?st = "(sz, mode, uid, gid, mtime)"
  let ?answers = "replicate (length [cmd, path]) (Some (big ''ACK'')) @ [Some (details_text name ?st)]"
  let ?ec = "Sent ns (big ?line) # (Opened ?k (si_ip si) (si_client_port si) # map (Sent ?k) (command_packets [cmd, path])) @
      (map Printed (shown_details ctime name ?st) @ [Sent ?k (big ''ACK''), Closed ?k]) @ [Printed ''Success'']"
  let ?en = "map (Sent c) (address_packets 4 si)"
  let ?es = "replicate 2 (Sent s (big ''ACK'')) @ [Sent s (details_text name ?st), Closed s]"
  have w: "typed ?line" "words ?line = [cmd, path]"
    using words_line_of [of "[cmd, path]"] typed_line_of [of "[cmd, path]"] line by simp_all
  have name: "name \<noteq> []" "NUL \<notin> set name" "length name < PATH_MAX"
    using path line(5) by (auto simp: plain_def argument_def)
  let ?c0 = "feed ns (address_packets 4 si) (set_connect [Some ?answers] ?k wc)"
  define vc where "vc = emit ?ec (set_in ?k [] (set_connect [] (Suc ?k) (set_in ns [] (set_stdin lines ?c0))))"
  define vn where "vn = emit ?en (set_in c [] wn)"
  define vs where "vs = emit ?es (set_in s [] ws)"
  have "client_turn ctime junk ns ?c0 = Done False vc"
    unfolding vc_def
    by (rule client_details_run [OF _ _ w(1,2)])
       (use client line naming(5) storage(3) path(3) name in \<open>simp_all add: feed_set_in MAX_ARGS_def\<close>)
  moreover have "client_handler_turn c rows (feed c [big ?line] wn) = Done ([cmd, path] @ drop 2 rows, False) vn"
    using naming_turn_address [of "feed c [big ?line] wn" ?line cmd path "[]" rows 4 n si c "[]"] w line naming
    by (simp add: vn_def feed_set_in address_command_def rows_ready_def server_info_def io_simps
        numeral_2_eq_2 split: if_splits)
  moreover have "serve_connection exec stat np (si_client_port si) old (si_client_port si) s
      (feed s (command_packets [cmd, path] @ [big ''ACK'']) ws) = Done () vs"
    using serve_details_run [of "feed s (command_packets [cmd, path] @ [big ''ACK'']) ws" cmd path dir name stat ?st
        "si_client_port si" np s exec old] line storage path name
    by (simp add: vs_def feed_set_in)
  moreover have ev: "new_events wc vc = ?ec" "new_events wn vn = ?en" "new_events ws vs = ?es"
    by (simp_all add: new_events_def vc_def vn_def vs_def feed_set_in)
  moreover have "sends ns ?ec = [big ?line]" "sends c ?en = address_packets 4 si"
    "sends ?k ?ec = command_packets [cmd, path] @ [big ''ACK'']" "map Some (sends s ?es) = ?answers"
    using client(3) by simp_all
  ultimately have "session ns (client_turn ctime junk ns) wc c (client_handler_turn c rows) wn
      s (serve_connection exec stat np (si_client_port si) old (si_client_port si) s) ws
      False vc ([cmd, path] @ drop 2 rows, False) vn () vs"
    unfolding session_def ev by (simp only: simp_thms)
  moreover have "prints ?ec =
      [name, show_int sz, show_oct (nat mode), show_int uid, show_int gid, ctime mtime, ''Success'']"
    by (simp add: shown_details_def)
  ultimately show ?thesis
    unfolding ev [symmetric] by (intro exI [of _ vc] exI [of _ vn] exI [of _ vs]) (simp add: ev)
qed

theorem details_session_witness:
  "\<exists>(wn :: naming) vc vn vs. get_value (ns_paths wn) ''/a.txt'' = Inr 0 \<and>
     session 0 (client_turn (\<lambda>_. ''Thu Jan  1 00:01:00 1970'') 0 0) (example_client\<lparr>w_stdin := [line_of [''DETAILS'', ''/a.txt'']]\<rparr>)
       7 (client_handler_turn 7 [[], []]) wn
       8 (serve_connection (\<lambda>cmd fs. None) [''./a.txt'' \<mapsto> (5, 33188, 1000, - 1, 60)] 5000 5001 0 5001 8) fresh_storage
       False vc ([''DETAILS'', ''/a.txt''], False) vn () vs \<and>
     prints (new_events (example_client\<lparr>w_stdin := [line_of [''DETAILS'', ''/a.txt'']]\<rparr>) vc) =
       [''a.txt'', ''5'', ''100644'', ''1000'', ''-1'', ''Thu Jan  1 00:01:00 1970'', ''Success'']"
proof -
  let ?wc = "example_client\<lparr>w_stdin := [line_of [''DETAILS'', ''/a.txt'']]\<rparr>"
  obtain wn :: naming where n: "get_value (ns_paths wn) ''/a.txt'' = Inr 0" "server_info 0 wn = Done full_info wn" "w_send_ok wn = []"
    using registered_naming by blast
  have c: "w_send_ok ?wc = []" "w_stdin ?wc = [line_of [''DETAILS'', ''/a.txt'']]" "0 \<noteq> w_next ?wc"
    by (simp_all add: example_client_def)
  have w: "strcaseeq ''DETAILS'' ''DETAILS''" "word ''DETAILS''" "word ''/a.txt''" "argument ''DETAILS''" "argument ''/a.txt''"
    by (simp_all add: strcaseeq_def to_lower_def word_def blank_def argument_def NUL_def)
  have p: "''/a.txt'' = [] @ ''/'' @ ''a.txt''" "CHR ''/'' \<notin> set ''a.txt''" "plain ''a.txt''"
    by (simp_all add: plain_def is_space_def)
  have f: "si_client_port full_info = 5001" by (simp add: full_info_def example_info_def)
  have t: "show_int 5 = ''5''" "show_oct (nat 33188) = ''100644''" "show_int 1000 = ''1000''" "show_int (- 1) = ''-1''"
    by (simp_all add: show_int_def show_nat.simps show_oct.simps digit_def) (simp_all add: char_of_def bit_0)
  have "\<exists>vc vn vs. session 0 (client_turn (\<lambda>_. ''Thu Jan  1 00:01:00 1970'') 0 0) ?wc 7 (client_handler_turn 7 [[], []]) wn
       8 (serve_connection (\<lambda>cmd fs. None) [''./a.txt'' \<mapsto> (5, 33188, 1000, - 1, 60)] 5000 (si_client_port full_info) 0
           (si_client_port full_info) 8) fresh_storage
       False vc ([''DETAILS'', ''/a.txt''] @ drop 2 [[], []], False) vn () vs \<and>
     Opened (w_next ?wc) (si_ip full_info) (si_client_port full_info) \<in> set (new_events ?wc vc) \<and>
     prints (new_events ?wc vc) = [''a.txt'', show_int 5, show_oct (nat 33188), show_int 1000, show_int (- 1),
       ''Thu Jan  1 00:01:00 1970'', ''Success'']"
    by (rule details_session [where mtime = 60, OF c _ w _ p n(3,1) _ n(2) full_info_ok])
       (simp_all add: f fresh_storage_def stat_ok_def MAX_BUFFER_SIZE_def)
  then show ?thesis using n(1) unfolding f t by (intro exI [of _ wn]) fastforce
qed

end
