(* ===== verification/Readers_Writers.thy ===== *)
theory Readers_Writers
  imports Transfers
begin

text \<open>
  The threads \<^verbatim>\<open>read_file\<close> and \<^verbatim>\<open>write_to_file\<close> of storageserverinit.c that work on one file, interleaved
  between any two operations on what they share: the two semaphores of the file and its counter
  of readers. The bytes of the file are not part of this model. The server joins every thread
  before it accepts the next connection, so this is what the synchronisation would do if it did
  not; Storage_System has the system as it is.
\<close>

section \<open>Threads\<close>

text \<open>The place where a thread is, named by what it does next.\<close>

datatype point =
    Reader_Lock
  | Reader_Count
  | Reader_Test
  | Reader_Wait
  | Reader_Unlock
  | Reading
  | Leave_Lock
  | Leave_Count
  | Leave_Test
  | Leave_Post
  | Leave_Unlock
  | Writer_Open
  | Writer_Wait
  | Writing
  | Writer_Post
  | Finished

record sync =
  sy_semaphore :: nat
  sy_semlock :: nat
  sy_readers :: int

text \<open>One operation of one thread. A \<^verbatim>\<open>sem_wait\<close> needs a semaphore that is not 0.\<close>

inductive thread_step :: "sync \<Rightarrow> point \<Rightarrow> sync \<Rightarrow> point \<Rightarrow> bool" where
  reader_lock: "0 < sy_semlock s \<Longrightarrow>
    thread_step s Reader_Lock (s\<lparr>sy_semlock := sy_semlock s - 1\<rparr>) Reader_Count"
| reader_count: "thread_step s Reader_Count (s\<lparr>sy_readers := sy_readers s + 1\<rparr>) Reader_Test"
| reader_test: "thread_step s Reader_Test s (if sy_readers s > 0 then Reader_Wait else Reader_Unlock)"
| reader_wait: "0 < sy_semaphore s \<Longrightarrow>
    thread_step s Reader_Wait (s\<lparr>sy_semaphore := sy_semaphore s - 1\<rparr>) Reader_Unlock"
| reader_unlock: "thread_step s Reader_Unlock (s\<lparr>sy_semlock := sy_semlock s + 1\<rparr>) Reading"
| reading: "thread_step s Reading s Leave_Lock"
| leave_lock: "0 < sy_semlock s \<Longrightarrow>
    thread_step s Leave_Lock (s\<lparr>sy_semlock := sy_semlock s - 1\<rparr>) Leave_Count"
| leave_count: "thread_step s Leave_Count (s\<lparr>sy_readers := sy_readers s - 1\<rparr>) Leave_Test"
| leave_test: "thread_step s Leave_Test s (if sy_readers s = 0 then Leave_Post else Leave_Unlock)"
| leave_post: "thread_step s Leave_Post (s\<lparr>sy_semaphore := sy_semaphore s + 1\<rparr>) Leave_Unlock"
| leave_unlock: "thread_step s Leave_Unlock (s\<lparr>sy_semlock := sy_semlock s + 1\<rparr>) Finished"
| writer_open: "thread_step s Writer_Open s Writer_Wait"
| writer_wait: "0 < sy_semaphore s \<Longrightarrow>
    thread_step s Writer_Wait (s\<lparr>sy_semaphore := sy_semaphore s - 1\<rparr>) Writing"
| writing: "thread_step s Writing s Writer_Post"
| writer_post: "thread_step s Writer_Post (s\<lparr>sy_semaphore := sy_semaphore s + 1\<rparr>) Finished"

code_pred (modes: i \<Rightarrow> i \<Rightarrow> o \<Rightarrow> o \<Rightarrow> bool as thread_steps) thread_step .

inductive_simps thread_step_simps [simp]:
  "thread_step s Reader_Lock s' p" "thread_step s Reader_Count s' p" "thread_step s Reader_Test s' p"
  "thread_step s Reader_Wait s' p" "thread_step s Reader_Unlock s' p" "thread_step s Reading s' p"
  "thread_step s Leave_Lock s' p" "thread_step s Leave_Count s' p" "thread_step s Leave_Test s' p"
  "thread_step s Leave_Post s' p" "thread_step s Leave_Unlock s' p" "thread_step s Writer_Open s' p"
  "thread_step s Writer_Wait s' p" "thread_step s Writing s' p" "thread_step s Writer_Post s' p"
  "thread_step s Finished s' p"

text \<open>The threads of one file: any of them may be the next to do something.\<close>

type_synonym threads = "sync \<times> point list"

inductive rw_step :: "threads \<Rightarrow> threads \<Rightarrow> bool" where
  thread: "i < length ps \<Longrightarrow> thread_step s (ps ! i) s' p \<Longrightarrow> rw_step (s, ps) (s', ps[i := p])"

inductive_cases rw_stepE: "rw_step (s, ps) c"

text \<open>\<^verbatim>\<open>sem_init\<close> sets both semaphores to 1. A thread begins as a reader or as a writer.\<close>

definition initial_sync :: sync where
  "initial_sync = \<lparr>sy_semaphore = 1, sy_semlock = 1, sy_readers = 0\<rparr>"

definition starting :: "point list \<Rightarrow> bool" where
  "starting ps \<longleftrightarrow> set ps \<subseteq> {Reader_Lock, Writer_Open}"

definition rw_reachable :: "point list \<Rightarrow> threads \<Rightarrow> bool" where
  "rw_reachable ps0 c \<longleftrightarrow> starting ps0 \<and> rw_step\<^sup>*\<^sup>* (initial_sync, ps0) c"

section \<open>The invariant\<close>

definition num :: "('a \<Rightarrow> bool) \<Rightarrow> 'a list \<Rightarrow> nat" where
  "num P xs = length (filter P xs)"

lemma num_simps [simp]:
  "num P [] = 0" "num P (x # xs) = (if P x then Suc (num P xs) else num P xs)"
  by (simp_all add: num_def)

lemma num_update:
  "i < length xs \<Longrightarrow> num P (xs[i := y]) + of_bool (P (xs ! i)) = num P xs + of_bool (P y)"
proof (induction xs arbitrary: i)
  case (Cons x xs)
  then show ?case by (cases i) auto
qed simp

lemma num_positive: "i < length xs \<Longrightarrow> P (xs ! i) \<Longrightarrow> 0 < num P xs"
  by (auto simp: num_def filter_empty_conv intro!: nth_mem)

lemma num_two: "i < length xs \<Longrightarrow> j < length xs \<Longrightarrow> i \<noteq> j \<Longrightarrow> P (xs ! i) \<Longrightarrow> P (xs ! j) \<Longrightarrow> 2 \<le> num P xs"
proof (induction xs arbitrary: i j)
  case (Cons x xs)
  then show ?case
    by (cases i; cases j) (auto dest: num_positive simp: Suc_le_eq)
qed simp

lemma num_zero: "num P xs = 0 \<longleftrightarrow> (\<forall>x\<in>set xs. \<not> P x)"
  by (auto simp: num_def filter_empty_conv)

text \<open>Who holds which semaphore, and which readers are counted.\<close>

fun holds_lock :: "point \<Rightarrow> bool" where
  "holds_lock p \<longleftrightarrow>
     p \<in> {Reader_Count, Reader_Test, Reader_Wait, Reader_Unlock, Leave_Count, Leave_Test, Leave_Post, Leave_Unlock}"

fun holds_file :: "point \<Rightarrow> bool" where
  "holds_file p \<longleftrightarrow>
     p \<in> {Reader_Unlock, Reading, Leave_Lock, Leave_Count, Leave_Test, Leave_Post, Writing, Writer_Post}"

fun counted :: "point \<Rightarrow> bool" where
  "counted p \<longleftrightarrow> p \<in> {Reader_Test, Reader_Wait, Reader_Unlock, Reading, Leave_Lock, Leave_Count}"

definition rw_inv :: "threads \<Rightarrow> bool" where
  "rw_inv c \<longleftrightarrow>
     (case c of (s, ps) \<Rightarrow>
        sy_semaphore s + num holds_file ps = 1 \<and> sy_semlock s + num holds_lock ps = 1 \<and>
        sy_readers s = int (num counted ps))"

lemma rw_inv_initial: "starting ps \<Longrightarrow> rw_inv (initial_sync, ps)"
proof -
  assume "starting ps"
  then have "num holds_file ps = 0 \<and> num holds_lock ps = 0 \<and> num counted ps = 0"
    unfolding num_zero starting_def by auto
  then show ?thesis by (simp add: rw_inv_def initial_sync_def)
qed

text \<open>A reader that holds both semaphores and is not counted any more was the only one counted.\<close>

lemma leaving_alone:
  assumes inv: "rw_inv (s, ps)" and i: "i < length ps" "ps ! i = Leave_Test"
  shows "sy_readers s = 0"
proof -
  have one: "num holds_file ps \<le> 1" "num holds_lock ps \<le> 1" using inv by (auto simp: rw_inv_def)
  have "\<not> counted (ps ! j)" if j: "j < length ps" for j
  proof
    assume c: "counted (ps ! j)"
    then have "i \<noteq> j" using i(2) by auto
    with c have "2 \<le> num holds_file ps \<or> 2 \<le> num holds_lock ps"
      using num_two [of i ps j holds_file] num_two [of i ps j holds_lock] i j by auto
    with one show False by auto
  qed
  then have "num counted ps = 0" by (auto simp: num_zero in_set_conv_nth)
  with inv show ?thesis by (simp add: rw_inv_def)
qed

text \<open>What a thread takes and gives back, as a balance.\<close>

lemma thread_step_balance:
  assumes "thread_step s q s' p" and "q = Leave_Test \<Longrightarrow> sy_readers s = 0" and "q = Reader_Test \<Longrightarrow> 0 < sy_readers s"
  shows "sy_semaphore s' + of_bool (holds_file p) = sy_semaphore s + of_bool (holds_file q)"
    and "sy_semlock s' + of_bool (holds_lock p) = sy_semlock s + of_bool (holds_lock q)"
    and "sy_readers s' - of_bool (counted p) = sy_readers s - of_bool (counted q)"
proof -
  have "sy_semaphore s' + of_bool (holds_file p) = sy_semaphore s + of_bool (holds_file q) \<and>
    sy_semlock s' + of_bool (holds_lock p) = sy_semlock s + of_bool (holds_lock q) \<and>
    sy_readers s' - of_bool (counted p) = sy_readers s - of_bool (counted q)"
    using assms by (cases rule: thread_step.cases) simp_all
  then show "sy_semaphore s' + of_bool (holds_file p) = sy_semaphore s + of_bool (holds_file q)"
    "sy_semlock s' + of_bool (holds_lock p) = sy_semlock s + of_bool (holds_lock q)"
    "sy_readers s' - of_bool (counted p) = sy_readers s - of_bool (counted q)" by blast+
qed

lemma rw_inv_step: "rw_step c c' \<Longrightarrow> rw_inv c \<Longrightarrow> rw_inv c'"
proof (induction rule: rw_step.induct)
  case (thread i ps s s' p)
  have counting: "0 < sy_readers s" if "ps ! i = Reader_Test"
    using num_positive [OF thread(1), of counted] that thread(3) by (simp add: rw_inv_def)
  have alone: "sy_readers s = 0" if "ps ! i = Leave_Test" using leaving_alone thread that by blast
  note balance = thread_step_balance [OF thread(2) alone counting]
  note update = num_update [OF thread(1), of _ p]
  have "int (num counted (ps[i := p])) + of_bool (counted (ps ! i)) = int (num counted ps) + of_bool (counted p)"
    using update [of counted] by (metis of_nat_add of_nat_of_bool)
  then show ?case
    using thread(3) balance update [of holds_file] update [of holds_lock]
    unfolding rw_inv_def prod.case by linarith
qed

lemma rw_reachable_inv: "rw_reachable ps0 c \<Longrightarrow> rw_inv c"
proof -
  assume r: "rw_reachable ps0 c"
  have "rw_step\<^sup>*\<^sup>* (initial_sync, ps0) c" using r by (simp add: rw_reachable_def)
  then show ?thesis
    by (induction rule: rtranclp_induct) (use r rw_inv_initial rw_inv_step in \<open>auto simp: rw_reachable_def\<close>)
qed


section \<open>Two readers\<close>

text \<open>One thread waits for the file and keeps the lock, the one that has the file needs the lock.\<close>

definition stuck :: "nat \<Rightarrow> nat \<Rightarrow> point list \<Rightarrow> bool" where
  "stuck a b ps \<longleftrightarrow>
     a < length ps \<and> b < length ps \<and> a \<noteq> b \<and> ps ! a \<in> {Reading, Leave_Lock} \<and> ps ! b = Reader_Wait"

lemma stuck_none_left:
  assumes "rw_inv (s, ps)" and "stuck a b ps"
  shows "sy_semaphore s = 0" and "sy_semlock s = 0"
proof -
  have "0 < num holds_file ps" "0 < num holds_lock ps"
    using assms(2) num_positive [of a ps holds_file] num_positive [of b ps holds_lock] by (auto simp: stuck_def)
  with assms(1) show "sy_semaphore s = 0" "sy_semlock s = 0" by (auto simp: rw_inv_def)
qed

lemma stuck_step:
  assumes "rw_inv (s, ps)" and "stuck a b ps" and "rw_step (s, ps) (s', ps')"
  shows "stuck a b ps'"
  using assms(3)
proof (cases rule: rw_step.cases)
  case (thread i p)
  have "i \<noteq> b" using thread(3) assms(2) stuck_none_left [OF assms(1,2)] by (auto simp: stuck_def)
  moreover have "p = Leave_Lock" if "i = a"
    using thread(3) assms(2) stuck_none_left [OF assms(1,2)] that by (auto simp: stuck_def)
  ultimately show ?thesis using assms(2) thread(1,2) by (cases "i = a") (auto simp: stuck_def)
qed

lemma stuck_for_ever:
  assumes "rw_inv c" and "stuck a b (snd c)" and "rw_step\<^sup>*\<^sup>* c c'"
  shows "stuck a b (snd c') \<and> rw_inv c'"
  using assms(3)
proof (induction rule: rtranclp_induct)
  case (step y z)
  then show ?case using stuck_step [of "fst y" "snd y" a b "fst z" "snd z"] rw_inv_step by simp
qed (use assms in simp)

text \<open>
  Claim C12. A second reader blocks the file for ever: once it waits for the semaphore that a first reader
  holds while it reads, neither of the two ever finishes, whatever the other threads do, and no
  other thread ever reads or writes the file.
\<close>

theorem second_reader_blocks:
  assumes "rw_reachable ps0 (s, ps)" and "a < length ps" and "b < length ps"
    and "ps ! a = Reading" and "ps ! b = Reader_Wait" and "rw_step\<^sup>*\<^sup>* (s, ps) (s', ps')"
  shows "ps' ! a \<in> {Reading, Leave_Lock} \<and> ps' ! b = Reader_Wait \<and>
    (\<forall>i. i < length ps' \<and> i \<noteq> a \<longrightarrow> ps' ! i \<notin> {Reading, Writing})"
proof -
  have "stuck a b ps" using assms by (auto simp: stuck_def)
  then have st: "stuck a b ps'" and inv: "rw_inv (s', ps')"
    using stuck_for_ever [of "(s, ps)" a b "(s', ps')"] assms(1,6) rw_reachable_inv by auto
  have "ps' ! i \<notin> {Reading, Writing}" if "i < length ps'" "i \<noteq> a" for i
    using num_two [of i ps' a holds_file] that st inv by (auto simp: stuck_def rw_inv_def)
  with st show ?thesis by (simp add: stuck_def)
qed

section \<open>One reader and any number of writers\<close>

text \<open>What a thread still has to do at most.\<close>

fun remaining :: "point \<Rightarrow> nat" where
  "remaining Reader_Lock = 11"
| "remaining Reader_Count = 10"
| "remaining Reader_Test = 9"
| "remaining Reader_Wait = 8"
| "remaining Reader_Unlock = 7"
| "remaining Reading = 6"
| "remaining Leave_Lock = 5"
| "remaining Leave_Count = 4"
| "remaining Leave_Test = 3"
| "remaining Leave_Post = 2"
| "remaining Leave_Unlock = 1"
| "remaining Writer_Open = 4"
| "remaining Writer_Wait = 3"
| "remaining Writing = 2"
| "remaining Writer_Post = 1"
| "remaining Finished = 0"

definition work :: "point list \<Rightarrow> nat" where
  "work ps = sum_list (map remaining ps)"

lemma thread_step_remaining: "thread_step s q s' p \<Longrightarrow> remaining p < remaining q"
  by (cases rule: thread_step.cases) auto

lemma work_update: "i < length ps \<Longrightarrow> remaining p < remaining (ps ! i) \<Longrightarrow> work (ps[i := p]) < work ps"
proof (induction ps arbitrary: i)
  case (Cons q ps)
  then show ?case by (cases i) (auto simp: work_def)
qed simp

lemma rw_step_work: "rw_step c c' \<Longrightarrow> work (snd c') < work (snd c)"
  by (induction rule: rw_step.induct) (auto intro: work_update thread_step_remaining)

fun reader_point :: "point \<Rightarrow> bool" where
  "reader_point p \<longleftrightarrow> p \<notin> {Writer_Open, Writer_Wait, Writing, Writer_Post, Finished}"

lemma rw_step_readers: "rw_step c c' \<Longrightarrow> num reader_point (snd c') \<le> num reader_point (snd c)"
proof (induction rule: rw_step.induct)
  case (thread i ps s s' p)
  have "of_bool (reader_point p) \<le> (of_bool (reader_point (ps ! i)) :: nat)"
    using thread(2) by (cases rule: thread_step.cases) auto
  with num_update [OF thread(1), of reader_point p] show ?case unfolding snd_conv by linarith
qed

text \<open>Which threads can go on.\<close>

definition can_step :: "sync \<Rightarrow> point \<Rightarrow> bool" where
  "can_step s p \<longleftrightarrow>
     p \<noteq> Finished \<and> (p \<in> {Reader_Lock, Leave_Lock} \<longrightarrow> 0 < sy_semlock s) \<and>
     (p \<in> {Reader_Wait, Writer_Wait} \<longrightarrow> 0 < sy_semaphore s)"

lemma can_step_iff: "(\<exists>s' q. thread_step s p s' q) \<longleftrightarrow> can_step s p"
  by (cases p) (auto simp: can_step_def)

lemma one_reader_can_step:
  assumes inv: "rw_inv (s, ps)" and one: "num reader_point ps \<le> 1" and q: "q \<in> set ps" "q \<noteq> Finished"
  shows "\<exists>i<length ps. can_step s (ps ! i)"
proof (rule ccontr)
  assume "\<not> ?thesis"
  then have no: "\<not> can_step s p" if "p \<in> set ps" for p using that by (auto simp: in_set_conv_nth)
  then have pts: "p \<in> {Reader_Lock, Leave_Lock, Reader_Wait, Writer_Wait, Finished}" if "p \<in> set ps" for p
    using that by (fastforce simp: can_step_def)
  have "\<not> (p \<in> set ps \<and> p \<in> {Leave_Lock, Reader_Lock})" for p
  proof
    assume p: "p \<in> set ps \<and> p \<in> {Leave_Lock, Reader_Lock}"
    then have "sy_semlock s = 0" using no [of p] by (auto simp: can_step_def)
    then have "num holds_lock ps \<noteq> 0" using inv by (simp add: rw_inv_def)
    then obtain r where r: "r \<in> set ps" "holds_lock r" by (auto simp: num_zero)
    then have "r = Reader_Wait" using pts [of r] by auto
    with p r(1) obtain i j where "i < length ps" "j < length ps" "ps ! i = p" "ps ! j = Reader_Wait"
      by (metis in_set_conv_nth)
    with p one show False using num_two [of i ps j reader_point] by (cases "i = j") auto
  qed
  with pts have waiting: "p \<in> {Reader_Wait, Writer_Wait, Finished}" if "p \<in> set ps" for p using that by blast
  then have "num holds_file ps = 0" unfolding num_zero by fastforce
  then have "0 < sy_semaphore s" using inv by (simp add: rw_inv_def)
  with waiting [OF q(1)] q(2) no [OF q(1)] show False by (auto simp: can_step_def)
qed

lemma one_reader_continues:
  assumes "rw_inv c" and "num reader_point (snd c) \<le> 1" and "q \<in> set (snd c)" and "q \<noteq> Finished"
  obtains c' where "rw_step c c'"
proof -
  obtain s ps where c: "c = (s, ps)" by (cases c)
  with assms one_reader_can_step [of s ps q] obtain i where "i < length ps" "can_step s (ps ! i)" by auto
  with can_step_iff [of s "ps ! i"] obtain s' p where "thread_step s (ps ! i) s' p" by blast
  with \<open>i < length ps\<close> that show thesis unfolding c by (blast intro: rw_step.thread)
qed

lemma all_finished:
  assumes "rw_inv (s, ps)" and "set ps \<subseteq> {Finished}"
  shows "s = initial_sync"
proof -
  have "num holds_file ps = 0" "num holds_lock ps = 0" "num counted ps = 0"
    using assms(2) unfolding num_zero by auto
  with assms(1) show ?thesis by (cases s) (simp add: rw_inv_def initial_sync_def)
qed

lemma one_reader_finishes:
  assumes "rw_inv c" and "num reader_point (snd c) \<le> 1"
  shows "\<exists>ps'. rw_step\<^sup>*\<^sup>* c (initial_sync, ps') \<and> set ps' \<subseteq> {Finished}"
  using assms
proof (induction "work (snd c)" arbitrary: c rule: less_induct)
  case less
  show ?case
  proof (cases "set (snd c) \<subseteq> {Finished}")
    case True
    then have "c = (initial_sync, snd c)" using all_finished [of "fst c" "snd c"] less.prems(1) by (cases c) simp
    with True show ?thesis by (metis rtranclp.rtrancl_refl)
  next
    case False
    then obtain q where "q \<in> set (snd c)" "q \<noteq> Finished" by auto
    then obtain c' where c': "rw_step c c'" using one_reader_continues less.prems by metis
    have "num reader_point (snd c') \<le> 1" using rw_step_readers [OF c'] less.prems(2) by simp
    with less.hyps [OF rw_step_work [OF c'] rw_inv_step [OF c' less.prems(1)]] c' show ?thesis
      by (meson converse_rtranclp_into_rtranclp)
  qed
qed

lemma rw_steps_readers: "rw_step\<^sup>*\<^sup>* c c' \<Longrightarrow> num reader_point (snd c') \<le> num reader_point (snd c)"
proof (induction rule: rtranclp_induct)
  case (step y z)
  then show ?case using rw_step_readers [OF step(2)] by linarith
qed (rule le_refl)

text \<open>
  Claim C14. Any number of writers and one reader never block each other: from every state they can reach there is
  a way for all of them to finish, after which both semaphores are free and no reader is counted.
\<close>

theorem one_reader_no_deadlock:
  assumes "rw_reachable ps0 (s, ps)" and "num (\<lambda>p. p = Reader_Lock) ps0 \<le> 1"
  shows "\<exists>ps'. rw_step\<^sup>*\<^sup>* (s, ps) (initial_sync, ps') \<and> set ps' \<subseteq> {Finished}"
proof -
  have "starting ps0" using assms(1) by (simp add: rw_reachable_def)
  then have "filter reader_point ps0 = filter (\<lambda>p. p = Reader_Lock) ps0"
    unfolding starting_def by (intro filter_cong) auto
  then have "num reader_point ps \<le> 1"
    using assms rw_steps_readers [of "(initial_sync, ps0)" "(s, ps)"] by (simp add: num_def rw_reachable_def)
  with one_reader_finishes [of "(s, ps)"] rw_reachable_inv [OF assms(1)] show ?thesis by simp
qed


section \<open>One thread alone\<close>

text \<open>The operations of one thread while no other one takes a turn.\<close>

definition solo :: "sync \<times> point \<Rightarrow> sync \<times> point \<Rightarrow> bool" where
  "solo c c' \<longleftrightarrow> thread_step (fst c) (snd c) (fst c') (snd c')"

lemma solo_in_threads:
  assumes "solo\<^sup>*\<^sup>* (s, ps ! i) (s', p)" and "i < length ps"
  shows "rw_step\<^sup>*\<^sup>* (s, ps) (s', ps[i := p])"
proof -
  have "rw_step\<^sup>*\<^sup>* (s, ps) (fst c, ps[i := snd c])" if "solo\<^sup>*\<^sup>* (s, ps ! i) c" for c
    using that
  proof (induction rule: rtranclp_induct)
    case base
    then show ?case by simp
  next
    case (step y z)
    have "rw_step (fst y, ps[i := snd y]) (fst z, ps[i := snd y, i := snd z])"
      by (rule rw_step.thread) (use step(2) assms(2) in \<open>simp_all add: solo_def\<close>)
    with step(3) show ?case by simp
  qed
  with assms(1) show ?thesis by fastforce
qed

text \<open>Runs that are built step by step.\<close>

lemma solo_step: "solo\<^sup>*\<^sup>* c (s, q) \<Longrightarrow> thread_step s q s' p \<Longrightarrow> solo\<^sup>*\<^sup>* c (s', p)"
  by (rule rtranclp.rtrancl_into_rtrancl [of _ _ "(s, q)"]) (simp_all add: solo_def)

lemma solo_lock:
  assumes "0 < b"
  shows "solo\<^sup>*\<^sup>* (\<lparr>sy_semaphore = a, sy_semlock = b, sy_readers = n\<rparr>, Reader_Lock)
    (\<lparr>sy_semaphore = a, sy_semlock = b - 1, sy_readers = n + 1\<rparr>, if 0 \<le> n then Reader_Wait else Reader_Unlock)"
proof -
  let ?s = "\<lparr>sy_semaphore = a, sy_semlock = b, sy_readers = n\<rparr>"
  have "solo\<^sup>*\<^sup>* (?s, Reader_Lock) (?s\<lparr>sy_semlock := b - 1\<rparr>, Reader_Count)"
    by (rule solo_step [OF rtranclp.rtrancl_refl]) (use assms in simp)
  then have "solo\<^sup>*\<^sup>* (?s, Reader_Lock) (?s\<lparr>sy_semlock := b - 1, sy_readers := n + 1\<rparr>, Reader_Test)"
    by (rule solo_step) simp
  then have "solo\<^sup>*\<^sup>* (?s, Reader_Lock)
      (?s\<lparr>sy_semlock := b - 1, sy_readers := n + 1\<rparr>, if 0 \<le> n then Reader_Wait else Reader_Unlock)"
    by (rule solo_step) simp
  then show ?thesis by simp
qed

lemma solo_enter:
  assumes "0 < b" and "0 \<le> n \<longrightarrow> 0 < a"
  shows "solo\<^sup>*\<^sup>* (\<lparr>sy_semaphore = a, sy_semlock = b, sy_readers = n\<rparr>, Reader_Lock)
    (\<lparr>sy_semaphore = if 0 \<le> n then a - 1 else a, sy_semlock = b, sy_readers = n + 1\<rparr>, Reading)"
proof -
  let ?s = "\<lparr>sy_semaphore = a, sy_semlock = b, sy_readers = n\<rparr>"
  let ?a = "if 0 \<le> n then a - 1 else a"
  have "solo\<^sup>*\<^sup>* (?s, Reader_Lock) (\<lparr>sy_semaphore = ?a, sy_semlock = b - 1, sy_readers = n + 1\<rparr>, Reader_Unlock)"
    using solo_lock [OF assms(1), of a n] assms(2) by (cases "0 \<le> n") (auto elim!: solo_step)
  then show ?thesis by (rule solo_step) (use assms(1) in simp)
qed

lemma solo_leave:
  assumes "0 < b"
  shows "solo\<^sup>*\<^sup>* (\<lparr>sy_semaphore = a, sy_semlock = b, sy_readers = n\<rparr>, Leave_Lock)
    (\<lparr>sy_semaphore = if n = 1 then a + 1 else a, sy_semlock = b, sy_readers = n - 1\<rparr>, Finished)"
proof -
  let ?s = "\<lparr>sy_semaphore = a, sy_semlock = b, sy_readers = n\<rparr>"
  let ?a = "if n = 1 then a + 1 else a"
  have "solo\<^sup>*\<^sup>* (?s, Leave_Lock) (?s\<lparr>sy_semlock := b - 1\<rparr>, Leave_Count)"
    by (rule solo_step [OF rtranclp.rtrancl_refl]) (use assms in simp)
  then have "solo\<^sup>*\<^sup>* (?s, Leave_Lock) (?s\<lparr>sy_semlock := b - 1, sy_readers := n - 1\<rparr>, Leave_Test)"
    by (rule solo_step) simp
  then have "solo\<^sup>*\<^sup>* (?s, Leave_Lock)
      (?s\<lparr>sy_semlock := b - 1, sy_readers := n - 1\<rparr>, if n = 1 then Leave_Post else Leave_Unlock)"
    by (rule solo_step) simp
  then have "solo\<^sup>*\<^sup>* (?s, Leave_Lock) (\<lparr>sy_semaphore = ?a, sy_semlock = b - 1, sy_readers = n - 1\<rparr>, Leave_Unlock)"
    by (cases "n = 1") (auto elim!: solo_step)
  then show ?thesis by (rule solo_step) (use assms in simp)
qed

text \<open>The values of the semaphores and the counter of file \<open>i\<close>.\<close>

definition sync_of :: "int \<Rightarrow> 'z storage_scheme \<Rightarrow> sync" where
  "sync_of i w =
     \<lparr>sy_semaphore = the (ss_semaphores w i), sy_semlock = the (ss_semlocks w i), sy_readers = ss_reader_count w i\<rparr>"

lemma sync_of_has: "has_sems i a b n w \<Longrightarrow> sync_of i w = \<lparr>sy_semaphore = a, sy_semlock = b, sy_readers = n\<rparr>"
  by (simp add: sync_of_def has_sems_def)

lemma sync_of_put [simp]: "sync_of i (put_sems i a b n w) = \<lparr>sy_semaphore = a, sy_semlock = b, sy_readers = n\<rparr>"
  by (simp add: sync_of_def put_sems_def)


section \<open>Witnesses\<close>

lemma reader_gets_file:
  assumes "i < length ps" and "ps ! i = Reader_Lock"
  shows "rw_step\<^sup>*\<^sup>* (initial_sync, ps) (\<lparr>sy_semaphore = 0, sy_semlock = 1, sy_readers = 1\<rparr>, ps[i := Reading])"
  using solo_in_threads [OF _ assms(1)] solo_enter [of 1 0 1] assms(2) by (simp add: initial_sync_def)

lemma two_readers_deadlock:
  "rw_reachable [Reader_Lock, Reader_Lock, Writer_Open]
     (\<lparr>sy_semaphore = 0, sy_semlock = 0, sy_readers = 2\<rparr>, [Reading, Reader_Wait, Writer_Open])"
proof -
  let ?s = "\<lparr>sy_semaphore = 0, sy_semlock = 1, sy_readers = 1\<rparr>" and ?ps = "[Reader_Lock, Reader_Lock, Writer_Open]"
  have "rw_step\<^sup>*\<^sup>* (initial_sync, ?ps) (?s, [Reading, Reader_Lock, Writer_Open])"
    using reader_gets_file [of 0 ?ps] by simp
  also have "rw_step\<^sup>*\<^sup>* (?s, [Reading, Reader_Lock, Writer_Open])
      (\<lparr>sy_semaphore = 0, sy_semlock = 0, sy_readers = 2\<rparr>, [Reading, Reader_Lock, Writer_Open][1 := Reader_Wait])"
    by (rule solo_in_threads) (use solo_lock [of 1 0 1] in simp_all)
  finally show ?thesis by (simp add: rw_reachable_def starting_def)
qed


theorem second_reader_blocks_witness:
  "\<exists>s ps. rw_reachable [Reader_Lock, Reader_Lock, Writer_Open] (s, ps) \<and>
     (\<forall>s' ps'. rw_step\<^sup>*\<^sup>* (s, ps) (s', ps') \<longrightarrow> ps' ! 1 = Reader_Wait)"
proof (intro exI conjI allI impI)
  fix s' ps'
  assume "rw_step\<^sup>*\<^sup>* (\<lparr>sy_semaphore = 0, sy_semlock = 0, sy_readers = 2\<rparr>, [Reading, Reader_Wait, Writer_Open]) (s', ps')"
  with second_reader_blocks [OF two_readers_deadlock, of 0 1] show "ps' ! 1 = Reader_Wait" by simp
qed (rule two_readers_deadlock)

theorem one_reader_no_deadlock_witness:
  "\<exists>s. rw_reachable [Reader_Lock, Writer_Open, Writer_Open] (s, [Reading, Writer_Open, Writer_Open]) \<and>
     (\<exists>ps'. rw_step\<^sup>*\<^sup>* (s, [Reading, Writer_Open, Writer_Open]) (initial_sync, ps') \<and> set ps' \<subseteq> {Finished})"
proof -
  let ?s = "\<lparr>sy_semaphore = 0, sy_semlock = 1, sy_readers = 1\<rparr>"
  have r: "rw_reachable [Reader_Lock, Writer_Open, Writer_Open] (?s, [Reading, Writer_Open, Writer_Open])"
    using reader_gets_file [of 0 "[Reader_Lock, Writer_Open, Writer_Open]"] by (simp add: rw_reachable_def starting_def)
  with one_reader_no_deadlock [OF r] show ?thesis by (intro exI [of _ ?s]) simp
qed



end
