(* ===== verification/Interrupted.thy ===== *)
theory Interrupted
  imports Copy Sessions
begin

text \<open>
  What happens when the other side goes away in the middle of a transfer, and what happens to the
  lines that are not one of the six commands.
\<close>

section \<open>Transfers without a STOP packet\<close>

text \<open>
  After the peer has closed the connection every further \<^verbatim>\<open>recv\<close> returns 0 bytes; such a result is
  an empty packet, and a \<open>data_packet\<close> as any other that does not read STOP.
\<close>

lemma write_loop_without_stop:
  assumes "w_send_ok w = []" and "list_all data_packet ps" and "w_in w s = map Some ps"
    and "w_files w name = Some (File old)"
  shows "write_loop s name w = Blocked
    (set_file name (old @ concat (map cstr ps)) (emit (replicate (length ps) (Sent s ACK_packet)) (set_in s [] w)))"
  using assms
proof (induction ps arbitrary: w old)
  case Nil
  then have "recv_or_exit s (CHUNK_SIZE + 1) w = Blocked w" by (simp add: recv_or_exit_def recv_def io_simps)
  with Nil show ?case by (subst write_loop.simps) (simp add: io_simps set_file_same set_in_same)
next
  case (Cons p ps)
  let ?w = "set_file name (old @ cstr p) (emit [Sent s ACK_packet] (set_in s (map Some ps) w))"
  have "write_loop s name w = write_loop s name ?w"
    using Cons.prems by (subst write_loop.simps) (simp add: io_simps run_simps)
  also have "\<dots> = Blocked (set_file name ((old @ cstr p) @ concat (map cstr ps))
      (emit (replicate (length ps) (Sent s ACK_packet)) (set_in s [] ?w)))"
    by (rule Cons.IH) (use Cons.prems in simp_all)
  finally show ?case by simp
qed

lemma receive_loop_without_stop:
  assumes "list_all data_packet ps" and "w_in w s = map Some ps" and "w_files w name = Some (File old)"
  shows "receive_loop s name w = Blocked (set_file name (old @ concat (map cstr ps)) (set_in s [] w))"
  using assms
proof (induction ps arbitrary: w old)
  case Nil
  then have "recv_or_exit s (CHUNK_SIZE + 1) w = Blocked w" by (simp add: recv_or_exit_def recv_def io_simps)
  with Nil show ?case by (subst receive_loop.simps) (simp add: io_simps set_file_same set_in_same)
next
  case (Cons p ps)
  let ?w = "set_file name (old @ cstr p) (set_in s (map Some ps) w)"
  have "receive_loop s name w = receive_loop s name ?w"
    using Cons.prems by (subst receive_loop.simps) (simp add: io_simps run_simps)
  also have "\<dots> = Blocked (set_file name ((old @ cstr p) @ concat (map cstr ps)) (set_in s [] ?w))"
    by (rule Cons.IH) (use Cons.prems in simp_all)
  finally show ?case by simp
qed

lemma read_loop_without_stop:
  assumes "w_send_ok w = []" and "list_all data_packet ps" and "w_in w s = map Some ps"
  shows "read_loop s w =
    Blocked (emit (concat (map (\<lambda>p. [Sent s ACK_packet, Printed (cstr p)]) ps)) (set_in s [] w))"
  using assms
proof (induction ps arbitrary: w)
  case Nil
  then have "recv s (CHUNK_SIZE + 1) w = Blocked w" by (simp add: recv_def)
  with Nil show ?case by (subst read_loop.simps) (simp add: io_simps set_in_same)
next
  case (Cons p ps)
  let ?w = "emit [Sent s ACK_packet, Printed (cstr p)] (set_in s (map Some ps) w)"
  have "read_loop s w = read_loop s ?w"
    using Cons.prems by (subst read_loop.simps) (simp add: io_simps run_simps)
  also have "\<dots> = Blocked (emit (concat (map (\<lambda>p. [Sent s ACK_packet, Printed (cstr p)]) ps)) (set_in s [] ?w))"
    by (rule Cons.IH) (use Cons.prems in simp_all)
  finally show ?case by simp
qed

lemma forward_loop_end_of_stream:
  assumes "w_send_ok w = []" and "list_all (\<lambda>p. data_packet p \<and> p \<noteq> []) ps" and "w_in w s1 = map Some ps @ Some [] # q"
  shows "forward_loop s1 s2 w =
    Done () (emit (map (\<lambda>p. Sent s2 (buffer (CHUNK_SIZE + 1) p)) ps) (set_in s1 q w))"
  using assms
proof (induction ps arbitrary: w)
  case Nil
  then show ?case by (subst forward_loop.simps) (simp add: io_simps run_simps)
next
  case (Cons p ps)
  let ?w = "emit [Sent s2 (buffer (CHUNK_SIZE + 1) p)] (set_in s1 (map Some ps @ Some [] # q) w)"
  have "forward_loop s1 s2 w = forward_loop s1 s2 ?w"
    using Cons.prems by (subst forward_loop.simps) (simp add: io_simps run_simps)
  also have "\<dots> = Done () (emit (map (\<lambda>p. Sent s2 (buffer (CHUNK_SIZE + 1) p)) ps) (set_in s1 q ?w))"
    by (rule Cons.IH) (use Cons.prems in simp_all)
  finally show ?case by simp
qed

text \<open>
  Claim C26. As long as acknowledgements can be sent, only a STOP packet ends the loops of WRITE, READ and RECEIVE: whatever else arrives, the ends of
  stream that a closed connection delivers for ever included, they take it all and ask for more. The
  forwarding loop of COPY, in contrast, ends at the first end of stream.
\<close>

theorem interrupted_transfer_never_ends:
  assumes "w_send_ok w = []" and "list_all data_packet ps" and "w_in w s = map Some ps" and "w_files w name = Some (File old)"
  shows "(\<exists>v. write_loop s name w = Blocked v \<and> w_in v s = []) \<and>
    (\<exists>v. receive_loop s name w = Blocked v \<and> w_in v s = []) \<and>
    (\<exists>v. read_loop s w = Blocked v \<and> w_in v s = []) \<and>
    ([] \<in> set ps \<longrightarrow> (\<exists>v. forward_loop s t w = Done () v))"
proof (intro conjI impI)
  assume "[] \<in> set ps"
  then obtain as bs where ps: "ps = as @ [] # bs" "[] \<notin> set as" by (metis split_list_first)
  then have "list_all (\<lambda>p. data_packet p \<and> p \<noteq> []) as" using assms(2) by (auto simp: list_all_iff)
  from forward_loop_end_of_stream [OF assms(1) this, of s "map Some bs" t] assms(3) ps
  show "\<exists>v. forward_loop s t w = Done () v" by simp
qed (use write_loop_without_stop [OF assms] receive_loop_without_stop [OF assms(2-4)]
    read_loop_without_stop [OF assms(1-3)] in simp_all)

theorem interrupted_transfer_never_ends_witness:
  "\<exists>v. receive_loop 5 ''./b.txt'' (example_client\<lparr>w_in := (\<lambda>_. [Some ''abc'', Some [], Some [], Some []])\<rparr>) = Blocked v \<and>
     w_in v 5 = []"
proof -
  have p: "list_all data_packet [''abc'', [], [], []]" by code_simp
  show ?thesis
    using interrupted_transfer_never_ends [OF _ p, of "example_client\<lparr>w_in := (\<lambda>_. [Some ''abc'', Some [], Some [], Some []])\<rparr>"
        5 "''./b.txt''" "''bye''" 6]
    by (simp add: example_client_def)
qed

section \<open>Lines that are no command\<close>

definition known_command :: "string \<Rightarrow> bool" where
  "known_command cmd \<longleftrightarrow>
     list_ex (strcaseeq cmd) [''CREATE'', ''DELETE'', ''READ'', ''WRITE'', ''COPY'', ''DETAILS'']"

lemma naming_turn_unknown:
  assumes ok: "w_send_ok w = []" and line: "typed line" "words line = cmd # rest" "rows_ready rows (words line)"
    and cmd: "\<not> known_command cmd" "\<not> strcaseeq line (''exit'' @ [CHR 0x0A] @ white)"
    and input: "w_in w c = Some (big line) # q"
  shows "client_handler_turn c rows w =
    Done (words line @ drop (length (words line)) rows, False) (emit [Sent c (int_bytes 6)] (set_in c q w))"
  using cmd line(1,2) ok input processCommand_ready [OF line(3)]
  by (simp add: client_handler_turn_defs known_command_def io_simps run_simps)

lemma client_turn_incorrect:
  assumes "w_send_ok w = []" and "w_stdin w = line # lines" and "typed line" and "w_in w ns = [Some (int_bytes 6)]"
  shows "client_turn ctime junk ns w = Done False
    (emit [Sent ns (big line), Printed ''Incorrect command''] (set_in ns [] (set_stdin lines w)))"
proof -
  have "length line < MAX_BUFFER_SIZE" "\<not> strcaseeq line (CHR 0x0A # white)" using assms(3) by (simp_all add: typed_def)
  moreover have "int_received 0 (int_bytes 6) = 6" by (rule int_received_whole) auto
  ultimately show ?thesis using assms by (simp add: client_turn_defs io_simps run_simps Let_def)
qed

lemma not_colour: "CHR 0x1B \<notin> set line \<Longrightarrow> \<not> strcaseeq line (x @ white)"
proof
  assume l: "CHR 0x1B \<notin> set line" and eq: "strcaseeq line (x @ white)"
  then have "to_lower CHR 0x1B \<in> set (map to_lower line)" by (simp add: strcaseeq_def white_def)
  then obtain d where d: "d \<in> set line" "to_lower d = CHR 0x1B" by (auto simp: to_lower_def)
  show False
  proof (cases "65 \<le> (of_char d :: nat) \<and> (of_char d :: nat) \<le> 90")
    case True
    with d(2) have "char_of (of_char d + 32 :: nat) = CHR 0x1B" by (simp add: to_lower_def)
    then have "(of_char (char_of (of_char d + 32 :: nat) :: char) :: nat) = 27" by simp
    with True show False by simp
  qed (use d l in \<open>auto simp: to_lower_def\<close>)
qed

text \<open>
  Claim C27. Nobody ever leaves: a line whose first word is none of the six commands is answered as incorrect and
  both loops go on, unless it ends in the control sequence of the colour white, which the naming
  server's test for exit includes. The line exit is no exception.
\<close>

theorem exit_is_an_incorrect_command:
  assumes client: "w_send_ok wc = []" "w_stdin wc = line # lines" "typed line" "CHR 0x1B \<notin> set line"
    and line: "words line = cmd # rest" "\<not> known_command cmd" "rows_ready rows (words line)"
    and naming: "w_send_ok wn = []"
  shows "\<exists>vc vn. talk ns (client_turn ctime junk ns) wc c (client_handler_turn c rows) wn
      False vc (words line @ drop (length (words line)) rows, False) vn \<and>
    prints (new_events wc vc) = [''Incorrect command''] \<and> \<not> known_command ''exit''"
proof -
  let ?ec = "[Sent ns (big line), Printed ''Incorrect command'']" and ?en = "[Sent c (int_bytes 6)]"
  define vc where "vc = emit ?ec (set_in ns [] (set_stdin lines wc))"
  define vn where "vn = emit ?en (set_in c [] wn)"
  have "client_turn ctime junk ns (feed ns [int_bytes 6] wc) = Done False vc"
    using client_turn_incorrect [of "feed ns [int_bytes 6] wc" line lines ns ctime junk] client
    by (simp add: vc_def feed_set_in)
  moreover have "client_handler_turn c rows (feed c [big line] wn) =
      Done (words line @ drop (length (words line)) rows, False) vn"
    using naming_turn_unknown [of "feed c [big line] wn" line cmd rest rows c "[]"] client(3) line naming
      not_colour [OF client(4), of "''exit'' @ [CHR 0x0A]"]
    by (simp add: vn_def feed_set_in)
  moreover have ev: "new_events wc vc = ?ec" "new_events wn vn = ?en"
    by (simp_all add: new_events_def vc_def vn_def)
  ultimately have "talk ns (client_turn ctime junk ns) wc c (client_handler_turn c rows) wn
      False vc (words line @ drop (length (words line)) rows, False) vn"
    by (simp add: talk_def)
  moreover have "\<not> known_command ''exit''" by code_simp
  ultimately show ?thesis using ev by (intro exI [of _ vc] exI [of _ vn]) simp
qed

theorem exit_is_an_incorrect_command_witness:
  "\<exists>vc (vn :: naming). talk 0 (client_turn (\<lambda>_. []) 0 0) (example_client\<lparr>w_stdin := [line_of [''exit'']]\<rparr>)
     7 (client_handler_turn 7 [[]]) example_naming False vc ([''exit''], False) vn"
proof -
  let ?wc = "example_client\<lparr>w_stdin := [line_of [''exit'']]\<rparr>"
  have c: "w_send_ok ?wc = []" "w_stdin ?wc = [line_of [''exit'']]" by (simp_all add: example_client_def)
  have as: "list_all word [''exit'']" "list_all argument [''exit'']"
    by (simp_all add: word_def blank_def argument_def NUL_def)
  have t: "typed (line_of [''exit''])" by (rule typed_line_of) (use as in \<open>simp_all add: MAX_BUFFER_SIZE_def\<close>)
  have ws: "words (line_of [''exit'']) = [''exit'']" by (rule words_line_of) (use as in simp_all)
  have "\<not> known_command ''exit''" by code_simp
  from exit_is_an_incorrect_command [OF c t _ ws this, of "[[]]" example_naming 0 "\<lambda>_. []" 0 7] as ws
  show ?thesis by (auto simp: rows_ready_def)
qed

end
