(* ===== verification/Client_Rows.thy ===== *)
theory Client_Rows
  imports Interrupted
begin

text \<open>
  The type of the array that a client's thread on the naming server keeps its words in: fifteen rows,
  each a string that fits its \<^verbatim>\<open>PATH_MAX\<close> bytes with its terminator.
\<close>

definition rows_ok :: "string list \<Rightarrow> bool" where
  "rows_ok rows \<longleftrightarrow> length rows = MAX_ARGS \<and> list_all argument rows"

lemma words_chars: "w \<in> set (words s) \<Longrightarrow> set w \<subseteq> set s"
proof (induction s arbitrary: w)
  case (Cons c s)
  have "words (c # s) = words s \<or> words (c # s) = [c] # words s \<or>
      (\<exists>v vs. words s = v # vs \<and> words (c # s) = (c # v) # vs)"
    by (auto split: list.splits)
  with Cons.prems consider "w \<in> set (words s)" | "w = [c]" | v where "v \<in> set (words s)" "w = c # v"
    by fastforce
  then show ?case using Cons.IH by cases fastforce+
qed simp

lemma cstr_no_NUL: "NUL \<notin> set (cstr s)"
  by (auto simp: cstr_def dest: set_takeWhileD)

lemma processCommand_rows:
  assumes "rows_ok rows" and "NUL \<notin> set line" and "processCommand line rows = Inr (rows', n)"
  shows "rows_ok rows'" and "0 < n" and "n \<le> MAX_ARGS"
proof -
  have "rows \<noteq> []" using assms(1) by (auto simp: rows_ok_def MAX_ARGS_def)
  then have w: "words line \<noteq> []" "length (words line) \<le> length rows" "\<forall>w\<in>set (words line). length w < PATH_MAX"
    and r: "rows' = words line @ drop (length (words line)) rows" "n = length (words line)"
    using processCommand_words [of rows line] assms(3) by (auto split: if_splits)
  have "argument w" if "w \<in> set (words line)" for w
    using w(3) that words_chars [OF that] assms(2) by (auto simp: argument_def)
  moreover have "argument w" if "w \<in> set (drop (length (words line)) rows)" for w
    using assms(1) in_set_dropD [OF that] by (simp add: rows_ok_def list_all_iff)
  ultimately show "rows_ok rows'" using r(1) w(2) assms(1) by (auto simp: rows_ok_def list_all_iff)
  show "0 < n" "n \<le> MAX_ARGS" using r(2) w assms(1) by (simp_all add: rows_ok_def)
qed

text \<open>Cutting slashes off the end of a row leaves a string that fits.\<close>

lemma basename_row: "argument p \<Longrightarrow> argument (snd (basename p))"
proof -
  assume p: "argument p"
  let ?t = "rev (dropWhile (\<lambda>c. c = CHR ''/'') (rev p))"
  have "set ?t \<subseteq> set p" using set_dropWhileD by fastforce
  moreover have "length ?t \<le> length p" using length_dropWhile [of "\<lambda>c. c = CHR ''/''" "rev p"] by simp
  ultimately have "argument ?t" using p by (auto simp: argument_def)
  with p show ?thesis by (auto simp: basename_def Let_def)
qed

lemma copy_rows: "copy c rows w = Done rows' w' \<Longrightarrow> rows' = rows \<or> rows' = rows[1 := snd (basename (rows ! 1))]"
  by (auto simp: copy_def io_simps Let_def split: prod.splits if_splits elim!: io_bind_DoneE)

lemma received_string_Done: "received_string n bs w = Done x w' \<Longrightarrow> x = cstr bs"
  by (auto simp: received_string_def io_lift_def io_simps buffer_string_def split: sum.splits if_splits)



end
