(* ===== verification/Path_Map.thy ===== *)
theory Path_Map
  imports Map_Operations_Correct
begin

text \<open>
  The path map as its users see it: any sequence of calls of set_value, get_value, remove_entry and
  print_map answers as a list of paths with numbers does.
\<close>

section \<open>Calls and answers\<close>

datatype call =
    Enter string int
  | Lookup string
  | Remove string
  | Show

datatype answer =
    Nothing
  | Number int
  | Lines "(string \<times> int) list"

definition perform :: "call \<Rightarrow> hashmap \<Rightarrow> fault + (answer \<times> hashmap)" where
  "perform c m =
     (case c of
        Enter p v \<Rightarrow> fbind (set_value m p v) (\<lambda>m'. Inr (Nothing, m'))
      | Lookup p \<Rightarrow> fbind (get_value m p) (\<lambda>v. Inr (Number v, m))
      | Remove p \<Rightarrow> fbind (remove_entry m p) (\<lambda>m'. Inr (Nothing, m'))
      | Show \<Rightarrow> fbind (print_map m) (\<lambda>ls. Inr (Lines ls, m)))"

primrec perform_all :: "call list \<Rightarrow> hashmap \<Rightarrow> fault + (answer list \<times> hashmap)" where
  "perform_all [] m = Inr ([], m)"
| "perform_all (c # cs) m =
     fbind (perform c m) (\<lambda>(a, m'). fbind (perform_all cs m') (\<lambda>(as, m''). Inr (a # as, m'')))"

section \<open>The reference\<close>

text \<open>A list of paths with their numbers, in the order in which they were first entered.\<close>

fun reference :: "call \<Rightarrow> (string \<times> int) list \<Rightarrow> answer \<times> (string \<times> int) list" where
  "reference (Enter p v) xs = (Nothing, AList.update p v xs)"
| "reference (Lookup p) xs = (Number (case map_of xs p of None \<Rightarrow> - 1 | Some v \<Rightarrow> v), xs)"
| "reference (Remove p) xs = (Nothing, filter (\<lambda>(q, v). q \<noteq> p \<and> \<not> prefix (p @ ''/'') q) xs)"
| "reference Show xs = (Lines xs, xs)"

primrec reference_all :: "call list \<Rightarrow> (string \<times> int) list \<Rightarrow> answer list \<times> (string \<times> int) list" where
  "reference_all [] xs = ([], xs)"
| "reference_all (c # cs) xs =
     (let (a, xs') = reference c xs; (as, xs'') = reference_all cs xs' in (a # as, xs''))"

text \<open>Paths that the formatted keys can hold, and numbers that fit an \<^verbatim>\<open>int\<close>.\<close>

fun proper_call :: "call \<Rightarrow> bool" where
  "proper_call (Enter p v) \<longleftrightarrow> plain p \<and> length p \<le> 4090 \<and> - (2 ^ 31) \<le> v \<and> v < 2 ^ 31"
| "proper_call (Lookup p) \<longleftrightarrow> p \<noteq> [] \<and> length p \<le> 4090"
| "proper_call (Remove p) \<longleftrightarrow> True"
| "proper_call Show \<longleftrightarrow> True"

lemma perform_reference:
  assumes m: "plain_map m" and c: "proper_call c"
  shows "\<exists>m'. perform c m = Inr (fst (reference c (pm_entries m)), m') \<and> plain_map m' \<and>
    pm_entries m' = snd (reference c (pm_entries m))"
proof (cases c)
  case (Enter p v)
  with c have pv: "plain p" "length p \<le> 4090" "- (2 ^ 31) \<le> v" "v < 2 ^ 31" by simp_all
  obtain m' where "set_value m p v = Inr m'" "plain_map m'" "pm_entries m' = AList.update p v (pm_entries m)"
    by (rule set_value_plain [OF m pv])
  with Enter show ?thesis by (simp add: perform_def)
next
  case (Lookup p)
  with c obtain t where "format_key p = Inr t" using format_key_fits by auto
  with m Lookup get_value_law [of m p t] show ?thesis by (simp add: perform_def plain_map_def)
next
  case (Remove p)
  with remove_entry_law [OF m, of p] show ?thesis by (auto simp: perform_def at_or_below_iff)
next
  case Show
  with print_map_law [OF m] m show ?thesis by (simp add: perform_def)
qed

lemma perform_all_reference:
  assumes "plain_map m" and "list_all proper_call cs"
  shows "\<exists>m'. perform_all cs m = Inr (fst (reference_all cs (pm_entries m)), m') \<and>
    pm_entries m' = snd (reference_all cs (pm_entries m))"
  using assms
proof (induction cs arbitrary: m)
  case (Cons c cs)
  then obtain m1 where m1: "perform c m = Inr (fst (reference c (pm_entries m)), m1)" "plain_map m1"
    "pm_entries m1 = snd (reference c (pm_entries m))" using perform_reference [of m c] by auto
  with Cons.IH [of m1] Cons.prems obtain m2 where
    "perform_all cs m1 = Inr (fst (reference_all cs (pm_entries m1)), m2)"
    "pm_entries m2 = snd (reference_all cs (pm_entries m1))" by auto
  with m1 show ?case by (simp add: Let_def case_prod_beta)
qed simp

text \<open>
  Claim C10. From the empty map, any sequence of calls answers exactly as the list does: looking a path up,
  entering, removing a path with everything below it and printing, in any order and with any
  number of resizes in between; no call ever fails or runs for ever.
\<close>

theorem path_map_equivalent_to_list:
  assumes "list_all proper_call cs"
  shows "\<exists>m. perform_all cs hashmap_create = Inr (fst (reference_all cs []), m)"
proof -
  have "plain_map hashmap_create" "pm_entries hashmap_create = []" using entries_create by (simp_all add: plain_map_def)
  with perform_all_reference [of hashmap_create cs] assms show ?thesis by auto
qed

theorem path_map_equivalent_to_list_witness:
  "\<exists>m. perform_all [Enter ''/d/f'' 2, Enter ''/e'' 1, Lookup ''/e'', Remove ''/d'', Lookup ''/d/f'', Show] hashmap_create =
     Inr ([Nothing, Nothing, Number 1, Nothing, Number (- 1), Lines [(''/e'', 1)]], m)"
  using path_map_equivalent_to_list
    [of "[Enter ''/d/f'' 2, Enter ''/e'' 1, Lookup ''/e'', Remove ''/d'', Lookup ''/d/f'', Show]"]
  by (simp add: plain_def is_space_def)

end
