(* ===== verification/Programs.thy ===== *)
theory Programs
  imports Naming_System Storage_System
begin

text \<open>
  The programs as wholes: the listening sockets, and \<^verbatim>\<open>main\<close> of the naming server and of a storage
  server with the order in which their threads take turns as an argument. Each of them stays
  within the reachable states that the invariants are about.
\<close>

section \<open>Listening\<close>

text \<open>The results of \<^verbatim>\<open>socket\<close>, \<^verbatim>\<open>bind\<close> and \<^verbatim>\<open>listen\<close>; the failure of any of them ends the program.\<close>

record listener =
  su_socket :: bool
  su_bind :: bool
  su_listen :: bool

definition listen_socket :: "listener \<Rightarrow> ('z world_scheme, unit) io" where
  "listen_socket su =
     (if \<not> su_socket su then io_exit
      else if \<not> su_bind su then io_exit
      else if \<not> su_listen su then io_exit
      else io_return ())"

lemma listen_socket_Done: "listen_socket su w = Done u w' \<longleftrightarrow> su_socket su \<and> su_bind su \<and> su_listen su \<and> w' = w"
  by (auto simp: listen_socket_def io_simps)

section \<open>The naming server\<close>

text \<open>
  A turn of \<^verbatim>\<open>main\<close> is one connection (\<open>None\<close> if \<^verbatim>\<open>accept\<close> fails); a client thread begins with a lookup
  in the cache and then takes one turn per command. The cache is created with room for three paths.
\<close>

datatype naming_turn =
    Accept "nat option" "addr list" "addr list" addr "string list"
  | Begin addr
  | Command nat

definition take_naming_turn :: "naming_turn \<Rightarrow> (naming, unit) io" where
  "take_naming_turn t =
     (case t of
        Accept s rows news junk junk_args \<Rightarrow>
          (case s of None \<Rightarrow> io_exit | Some s \<Rightarrow> accept_connection rows news junk junk_args s)
      | Begin lit \<Rightarrow> client_handler_start lit
      | Command c \<Rightarrow> client_thread_turn c)"

primrec naming_turns :: "naming_turn list \<Rightarrow> (naming, unit) io" where
  "naming_turns [] = io_return ()"
| "naming_turns (t # ts) = io_bind (take_naming_turn t) (\<lambda>_. naming_turns ts)"

definition naming_main ::
  "(addr \<Rightarrow> string option) \<Rightarrow> addr \<Rightarrow> addr \<Rightarrow> addr \<Rightarrow> addr \<Rightarrow> listener \<Rightarrow> naming_turn list \<Rightarrow> world \<Rightarrow>
   (naming, unit) outcome" where
  "naming_main strings lit junk h t su ts w =
     io_bind (listen_socket su) (\<lambda>_. naming_turns ts)
       (naming_start w (createLRU strings lit junk h t hashmap_create 3))"

lemma take_naming_turn_step: "take_naming_turn t w = Done u w' \<Longrightarrow> naming_step w w'"
  by (cases t) (auto simp: take_naming_turn_def io_simps intro: naming_step.intros split: option.splits)

lemma naming_turns_reachable: "naming_turns ts w = Done u w' \<Longrightarrow> naming_reachable w \<Longrightarrow> naming_reachable w'"
proof (induction ts arbitrary: w)
  case (Cons t ts)
  then obtain v where "take_naming_turn t w = Done () v" "naming_turns ts v = Done u w'"
    by (auto elim!: io_bind_DoneE)
  with Cons take_naming_turn_step naming_reachable.step show ?case by blast
qed (simp add: io_simps)

lemma naming_main_reachable: "naming_main strings lit junk h t su ts w = Done u w' \<Longrightarrow> naming_reachable w'"
  unfolding naming_main_def
  by (auto elim!: io_bind_DoneE simp: listen_socket_Done intro: naming_turns_reachable naming_reachable.init)

section \<open>A storage server\<close>

text \<open>
  After \<^verbatim>\<open>main\<close> has registered the server it starts the two port threads. The connections they accept
  are listed in the order in which they are served, with the port they arrive on.
\<close>

definition serve_next ::
  "runner \<Rightarrow> stats \<Rightarrow> int \<Rightarrow> int \<Rightarrow> int \<Rightarrow> bool \<times> nat option \<Rightarrow> (storage, unit) io" where
  "serve_next exec stat np cp junk a =
     (case snd a of
        None \<Rightarrow> io_exit
      | Some s \<Rightarrow> serve_connection exec stat np cp junk (if fst a then np else cp) s)"

primrec storage_turns ::
  "runner \<Rightarrow> stats \<Rightarrow> int \<Rightarrow> int \<Rightarrow> int \<Rightarrow> (bool \<times> nat option) list \<Rightarrow> (storage, unit) io" where
  "storage_turns exec stat np cp junk [] = io_return ()"
| "storage_turns exec stat np cp junk (a # as) =
     io_bind (serve_next exec stat np cp junk a) (\<lambda>_. storage_turns exec stat np cp junk as)"

text \<open>A port thread first listens, with the same calls as the \<^verbatim>\<open>main\<close> of the naming server.\<close>

definition portThread_listen :: "listener \<Rightarrow> ('z world_scheme, unit) io" where
  "portThread_listen su = listen_socket su"

text \<open>Failures of \<^verbatim>\<open>pthread_create\<close> end the program like those of the sockets.\<close>

definition storage_program ::
  "runner \<Rightarrow> stats \<Rightarrow> int \<Rightarrow> int \<Rightarrow> string \<Rightarrow> dentry list \<Rightarrow> int list \<Rightarrow> string list \<Rightarrow>
   bool \<times> bool \<Rightarrow> listener \<times> listener \<Rightarrow> int \<Rightarrow> (bool \<times> nat option) list \<Rightarrow> (storage, unit) io" where
  "storage_program exec stat np cp root listing choices junk_rows created sus junk as =
     io_bind (storage_main np cp root listing choices junk_rows) (\<lambda>_.
     if \<not> (fst created \<and> snd created) then io_exit
     else io_bind (portThread_listen (fst sus)) (\<lambda>_.
          io_bind (portThread_listen (snd sus)) (\<lambda>_.
          storage_turns exec stat np cp junk as)))"

lemma serve_next_step: "serve_next exec stat np cp junk a w = Done u w' \<Longrightarrow> storage_step exec stat np cp w w'"
  by (cases "fst a") (auto simp: serve_next_def io_simps intro: storage_step.intros split: option.splits)

lemma storage_turns_reachable:
  "storage_turns exec stat np cp junk as w = Done u w' \<Longrightarrow> storage_reachable exec stat np cp w \<Longrightarrow>
   storage_reachable exec stat np cp w'"
proof (induction as arbitrary: w)
  case (Cons a as)
  then obtain v where "serve_next exec stat np cp junk a w = Done () v"
    "storage_turns exec stat np cp junk as v = Done u w'" by (auto elim!: io_bind_DoneE)
  with Cons serve_next_step storage_reachable.step show ?case by blast
qed (simp add: io_simps)

lemma storage_program_reachable:
  assumes "ss_semaphores w = (\<lambda>_. None)" and "ss_semlocks w = (\<lambda>_. None)"
    and "storage_program exec stat np cp root listing choices junk_rows created sus junk as w = Done u w'"
  shows "storage_reachable exec stat np cp w'"
proof -
  obtain v where "storage_main np cp root listing choices junk_rows w = Done () v"
    "storage_turns exec stat np cp junk as v = Done u w'"
    using assms(3) unfolding storage_program_def portThread_listen_def
    by (auto elim!: io_bind_DoneE simp: listen_socket_Done io_simps split: if_splits)
  with storage_reachable.init [OF assms(1,2)] storage_turns_reachable show ?thesis by blast
qed

end
