(* ===== verification/Spec2Isabelle.thy ===== *)
theory Spec2Isabelle
  imports Copy_Session Write_Session Delete_Session Details_Session Readers_Writers Client_Rows Path_Map Programs
    Registration_Protocol
begin

text \<open>
  A network file system in C, modelled and verified. Clients (clientinit.c) send commands to a
  naming server (namingserver.c), which knows on which storage server (storageserverinit.c) a path
  is. READ, WRITE and DETAILS are answered with an address, to which the client then connects;
  CREATE, DELETE and COPY the naming server has carried out by the storage servers before it
  answers. The three programs are single processes that share the hash map of hashmap/map.c, with
  paths as keys (hashmap/map_operations.c) and the cache of LRU/lru.c.

  \<^bold>\<open>Data structures\<close>
  \<^item> Hash_Data, Hashmap, Hashmap_Refine, Hashmap_Resize, Hashmap_Correct: map.c. The hash is computed
    on 64-bit words and cut to 32 bits. A map is the array of buckets with the insertion list
    threaded through it, open addressing with linear probing, tombstones, and growth when three
    quarters are full. The probing loop is a \<^verbatim>\<open>partial_function (option)\<close>: not returning is
    \<^verbatim>\<open>None\<close>, and the refinement lemmas show that under the invariant it returns. Each operation is
    shown to implement the corresponding one on the list of entries in order of insertion, stated
    as the locale \<^verbatim>\<open>ordered_map\<close> that the model's own operations interpret.
  \<^item> Map_Operations, Map_Operations_Correct, Path_Map: map_operations.c. Keys are the formatted texts
    the code builds with sprintf, so that paths that do not fit, the empty path and the scanning back with
    sscanf are explicit. Any sequence of calls answers like a list of paths with numbers.
  \<^item> Lru, Lru_Correct: lru.c, over an explicit memory of nodes and of the strings that the keys
    point to. put and get implement a bounded recency list; a key whose buffer is reused breaks that.

  \<^bold>\<open>Programs\<close>
  \<^item> NFS_Prelude: constants of definitions.h, C strings, numbers in text, faults. Io: the system
    calls. A run is a function of what the calls will return: packets per socket, results of send
    and connect, lines typed, files; it yields a log of events and ends normally, by exit, waiting for
    ever or with a fault (a memory error that C leaves undefined). Io_Hoare: invariants of such programs.
  \<^item> Command: processCommand, which clients and naming server have in two copies.
  \<^item> Registration: the structure a storage server sends, as bytes.
  \<^item> File_Ops: operations/create_file.c and delete.c, with what touch, mkdir, rm and tar do to the
    files as a parameter. Storage_Server: transfers, dispatch, connections and start-up of a
    storage server. Client: clientinit.c. Naming_Server: namingserver.c, one turn per command of a
    client and per connection. Programs: the mains with their loops and listening sockets, the
    order in which threads take turns being an argument.

  \<^bold>\<open>Programs together\<close>
  \<^item> Transfers, Copy: two or three of the programs, each fed with the packets that the others send.
    READ, WRITE, DETAILS and COPY move the right bytes; what is lost or goes wrong is stated too.
  \<^item> Registration_Protocol, Naming_Invariant, Naming_System: registration from both sides, and the
    tables of the naming server in every state that interleaved turns can reach.
  \<^item> Sessions, Write_Session, Details_Session, Create_Session, Delete_Session, Copy_Session: the six
    commands, each from the line typed at the client through the naming server to the storage servers
    and back.
  \<^item> Storage_System: between connections no semaphore of a storage server is held, so that serving a
    connection only ever waits for packets. Readers_Writers: the two kinds of threads of a file,
    interleaved between single operations, with exclusion, the deadlock of two readers, and
    progress with one; the sequential model is a run of it.
  \<^item> Interrupted: peers that go away, and lines that are no command. Client_Rows: the array of
    words that a client's thread keeps from one command to the next has its type after every turn.

  \<^bold>\<open>Bounds\<close>. The sizes are those of the code: packets of at most 512 bytes of a file or 6000 of a message, paths of 4096, fifteen
  paths and words, ten storage servers. Loops over packets recur on the size of what is still to
  arrive, which every recv decreases; no fuel is used. The loops of the mains are run for any given
  number of turns.

  \<^bold>\<open>Abstractions\<close>. In the end-to-end properties each send arrives as one recv of the same bytes; the
  programs themselves are modelled for any cutting of the stream, and rely on that one although
  TCP does not promise it. Bytes of a buffer behind its terminator are shown as zeros. A turn of a client's
  thread on the naming server and a connection of a storage server are atomic, so data races
  on the global maps and buffers are outside of the model. Messages on the terminal are kept where
  they carry data or tell success from failure.

  \<^bold>\<open>Not modelled\<close>. hashmap_free and all other deallocation, failing malloc and pthread_join, the commented-out
  bucket_dump, sleep, addresses of peers that are only logged, and the programs of the operating system;
  ctime and stat are parameters.
\<close>

end
